theory Spec2Isabelle
  imports Main "HOL-Library.Word" "HOL-Library.Char_ord" "HOL-Library.List_Lexorder"
begin

section \<open>The flag registry of communicatord: data model\<close>

text \<open>
  The development follows the flag implementation (class \<open>communicatord::flag\<close>): the name
  validator, the flag value object with its setters, the two constructors, \<open>save()\<close> and
  \<open>load_flags()\<close>, together with the resolution of the flags directory.

  An operation of the class is a function of the object and of the world it runs in; it
  gives back the object and the world it leaves behind.  Three outcomes are kept apart:
  \<^item> the call does not return: the value is \<open>None\<close>;
  \<^item> the call throws the exception \<open>e\<close>: the result is \<open>Inl e\<close>;
  \<^item> the call returns \<open>v\<close>: the result is \<open>Inr v\<close>.
\<close>

datatype exn = invalid_name | invalid_parameter | std_invalid_argument | std_out_of_range

definition and_then :: "exn + 'a \<Rightarrow> ('a \<Rightarrow> exn + 'b) \<Rightarrow> exn + 'b" where
  "and_then r k = (case r of Inl e \<Rightarrow> Inl e | Inr v \<Rightarrow> k v)"

datatype state_t = STATE_UP | STATE_DOWN

text \<open>
  The members of the class.  \<open>int\<close> members are 32-bit words and \<open>time_t\<close> members 64-bit
  words, read as two's complement.  The set of tags (a \<open>std::set\<close> of strings) is kept as
  the list of its elements in iteration order, that is, strictly increasing.
\<close>

record flag =
  f_state :: state_t
  f_unit :: string
  f_section :: string
  f_name :: string
  f_filename :: string
  f_source_file :: string
  f_function :: string
  f_line :: "32 word"
  f_message :: string
  f_priority :: "32 word"
  f_manual_down :: bool
  f_date :: "64 word"
  f_modified :: "64 word"
  f_tags :: "string list"
  f_hostname :: string
  f_count :: "32 word"
  f_version :: string

text \<open>
  Modelled from the spec: the member initialisers of the class, which are in the header
  \<open>flags.h\<close> (not among the sources).  The spec gives state UP, priority 5, count 0, no
  tags, and date and modified unset; \<open>-1\<close> stands for an unset \<open>time_t\<close>.  No property
  below depends on the value chosen for an unset date.
\<close>

definition default_flag :: flag where
  "default_flag =
     \<lparr> f_state = STATE_UP, f_unit = [], f_section = [], f_name = [], f_filename = [],
       f_source_file = [], f_function = [], f_line = 0, f_message = [], f_priority = 5,
       f_manual_down = False, f_date = - 1, f_modified = - 1, f_tags = [],
       f_hostname = [], f_count = 0, f_version = [] \<rparr>"

text \<open>
  Modelled from the spec: the constant \<open>flag::FLAGS_LIMIT\<close> of the same header, the
  ceiling on the number of flags that \<open>load_flags()\<close> reads.
\<close>

definition FLAGS_LIMIT :: nat where
  "FLAGS_LIMIT = 100"

section \<open>The world outside the object\<close>

text \<open>
  Modelled from the spec: a configuration file (\<open>advgetopt::conf_file\<close>, an external
  library) is the finite map from parameter names to values that it holds; the file stores
  one \<open>key=value\<close> pair per parameter and gives back the value that was stored.  It is
  opened from the record on disk each time.
\<close>

type_synonym conf_file = "string \<rightharpoonup> string"

datatype st_mode = S_IFDIR | S_IFREG

text \<open>The values that \<open>unlink()\<close> may leave in \<open>errno\<close>.\<close>

datatype errno =
    ENOENT | EACCES | EPERM | EISDIR | ENOTDIR | EROFS | EBUSY | ELOOP | ENAMETOOLONG
  | EIO | ENOMEM | EFAULT

text \<open>
  The world: the function-local static \<open>g_path_to_flag_files\<close>, the parameters of
  \<open>/etc/communicatord/flags.conf\<close>, what \<open>stat()\<close> answers, the record files on disk,
  the paths the process may write, the paths the system refuses to remove and with which
  error, the directory enumerator, the clock, the host name, the version string of the
  build, the source location that the flag macro captures and the diagnostics logged so
  far.
\<close>

record world =
  g_path_to_flag_files :: string
  flags_conf :: conf_file
  stat_mode :: "string \<rightharpoonup> st_mode"
  files :: "string \<rightharpoonup> conf_file"
  writable :: "string \<Rightarrow> bool"
  refused :: "string \<rightharpoonup> errno"
  glob_to_list :: "string \<Rightarrow> string list"
  time_now :: "64 word"
  gethostname :: string
  COMMUNICATORD_VERSION_STRING :: string
  macro_file :: string
  macro_line :: "32 word"
  logged :: "string list"

definition SNAP_LOG_ERROR :: "string \<Rightarrow> world \<Rightarrow> world" where
  "SNAP_LOG_ERROR msg w = w\<lparr>logged := logged w @ [msg]\<rparr>"

definition has_parameter :: "conf_file \<Rightarrow> string \<Rightarrow> bool" where
  "has_parameter file name = (file name \<noteq> None)"

definition get_parameter :: "conf_file \<Rightarrow> string \<Rightarrow> string" where
  "get_parameter file name = (case file name of None \<Rightarrow> [] | Some v \<Rightarrow> v)"

definition set_parameter :: "string \<Rightarrow> string \<Rightarrow> conf_file \<Rightarrow> conf_file" where
  "set_parameter name v file = file(name \<mapsto> v)"

text \<open>Opening a configuration file reads the record at that path; a missing file has no
  parameter.\<close>

definition get_conf_file :: "world \<Rightarrow> string \<Rightarrow> conf_file" where
  "get_conf_file w filename = (case files w filename of None \<Rightarrow> Map.empty | Some ps \<Rightarrow> ps)"

definition conf_exists :: "world \<Rightarrow> string \<Rightarrow> bool" where
  "conf_exists w filename = (files w filename \<noteq> None)"

text \<open>
  \<open>save_configuration(".bak", true)\<close>: the previous content, if any, is kept as a backup
  beside the record, then the record is replaced.  The answer is false when the path cannot
  be written.
\<close>

definition save_configuration :: "string \<Rightarrow> string \<Rightarrow> conf_file \<Rightarrow> world \<Rightarrow> bool \<times> world" where
  "save_configuration filename backup_extension file w =
     (if \<not> writable w filename then (False, w)
      else (True, w\<lparr>files :=
              (case files w filename of
                 None \<Rightarrow> files w
               | Some previous \<Rightarrow> (files w)(filename @ backup_extension \<mapsto> previous))
              (filename \<mapsto> file)\<rparr>))"

text \<open>
  \<open>unlink()\<close>.  The system may refuse the path, whether or not a record is there:
  \<open>EISDIR\<close> for a directory, \<open>ENOTDIR\<close> when a component of the path is not a
  directory, \<open>EACCES\<close> or \<open>EPERM\<close> without the permission, \<open>EROFS\<close> on a read-only
  file system, and so on; nothing changes then.  Otherwise the answer is \<open>ENOENT\<close> when no
  record is at the path, and no error when there is one, which is removed.
\<close>

definition unlink :: "string \<Rightarrow> world \<Rightarrow> errno option \<times> world" where
  "unlink filename w =
     (case refused w filename of
        Some e \<Rightarrow> (Some e, w)
      | None \<Rightarrow>
          if files w filename = None then (Some ENOENT, w)
          else (None, w\<lparr>files := (files w)(filename := None)\<rparr>))"

section \<open>Numbers as text\<close>

text \<open>\<open>std::to_string\<close> of a signed integer: decimal digits, a minus sign first when
  negative.\<close>

definition digit_char :: "nat \<Rightarrow> char" where
  "digit_char d = char_of (48 + d)"

fun dec :: "nat \<Rightarrow> string" where
  "dec n = (if n < 10 then [digit_char n] else dec (n div 10) @ [digit_char (n mod 10)])"

definition to_string :: "int \<Rightarrow> string" where
  "to_string i = (if i < 0 then CHR ''-'' # dec (nat (- i)) else dec (nat i))"

text \<open>
  \<open>std::stol\<close> in base 10: white space is skipped, then an optional sign, then the longest
  run of digits; what follows is ignored.  No digit gives \<open>std::invalid_argument\<close>, a value
  that does not fit a 64-bit \<open>long\<close> gives \<open>std::out_of_range\<close>.
\<close>

definition isspace :: "char \<Rightarrow> bool" where
  "isspace c = (c \<in> {CHR '' '', CHR 0x09, CHR 0x0A, CHR 0x0B, CHR 0x0C, CHR 0x0D})"

definition is_digit :: "char \<Rightarrow> bool" where
  "is_digit c = (c \<in> set ''0123456789'')"

definition digit_val :: "char \<Rightarrow> nat" where
  "digit_val c = of_char c - 48"

fun digits_val :: "nat \<Rightarrow> string \<Rightarrow> nat" where
  "digits_val acc [] = acc"
| "digits_val acc (c # cs) = digits_val (10 * acc + digit_val c) cs"

definition stol :: "string \<Rightarrow> exn + int" where
  "stol str =
     (let s1 = dropWhile isspace str;
          negative = (s1 \<noteq> [] \<and> hd s1 = CHR ''-'');
          s2 = (if s1 \<noteq> [] \<and> (hd s1 = CHR ''-'' \<or> hd s1 = CHR ''+'') then tl s1 else s1);
          ds = takeWhile is_digit s2;
          v = (if negative then - int (digits_val 0 ds) else int (digits_val 0 ds))
      in if ds = [] then Inl std_invalid_argument
         else if v < - (2 ^ 63) \<or> 2 ^ 63 \<le> v then Inl std_out_of_range
         else Inr v)"

text \<open>Addition on \<open>long\<close>, with the wrap-around of the 64-bit machine written out.\<close>

definition long_add :: "int \<Rightarrow> int \<Rightarrow> int" where
  "long_add a b = sint ((word_of_int a :: 64 word) + word_of_int b)"

section \<open>Joining and splitting the tags\<close>

fun join_strings :: "string list \<Rightarrow> string \<Rightarrow> string" where
  "join_strings [] sep = []"
| "join_strings [t] sep = t"
| "join_strings (t # ts) sep = t @ sep @ join_strings ts sep"

text \<open>
  \<open>snapdev::tokenize_string(tokens, str, delimiters, trim_empty, trim_string)\<close>: the
  string is cut at every delimiter, each token loses the characters of \<open>trim_string\<close> at
  both ends, and empty tokens are dropped when \<open>trim_empty\<close> is set.
\<close>

fun split_at :: "string \<Rightarrow> string \<Rightarrow> string list" where
  "split_at delimiters [] = [[]]"
| "split_at delimiters (c # cs) =
     (if c \<in> set delimiters then [] # split_at delimiters cs
      else (case split_at delimiters cs of
              [] \<Rightarrow> [[c]]
            | tok # toks \<Rightarrow> (c # tok) # toks))"

definition trim_token :: "string \<Rightarrow> string \<Rightarrow> string" where
  "trim_token trim_string tok =
     rev (dropWhile (\<lambda>c. c \<in> set trim_string) (rev (dropWhile (\<lambda>c. c \<in> set trim_string) tok)))"

definition tokenize_string :: "string \<Rightarrow> string \<Rightarrow> bool \<Rightarrow> string \<Rightarrow> string list" where
  "tokenize_string str delimiters trim_empty trim_string =
     filter (\<lambda>tok. tok \<noteq> [] \<or> \<not> trim_empty)
       (map (trim_token trim_string) (split_at delimiters str))"

text \<open>
  The characters that the constructor trims from a tag, and the tags that come back as
  they are from joining and splitting: not empty, no comma, no such character at either
  end.  Every name of the grammar is such a tag.
\<close>

definition tag_separators :: string where
  "tag_separators = [CHR '' '', CHR 0x0A, CHR 0x0D, CHR 0x09]"

definition plain_tag :: "string \<Rightarrow> bool" where
  "plain_tag t = (t \<noteq> [] \<and> CHR '','' \<notin> set t \<and> hd t \<notin> set tag_separators
                  \<and> last t \<notin> set tag_separators)"

text \<open>Insertion into the ordered set of tags: nothing happens when the element is there.\<close>

definition set_insert :: "string \<Rightarrow> string list \<Rightarrow> string list" where
  "set_insert x xs = (if x \<in> set xs then xs else insort x xs)"

section \<open>The name validator\<close>

text \<open>
  \<open>char\<close> is signed: a byte above 127 compares as a negative number.  \<open>c |= 0x20\<close> sets
  bit 5 of the byte.
\<close>

definition schar :: "char \<Rightarrow> int" where
  "schar c = (if of_char c < (128::nat) then int (of_char c) else int (of_char c) - 256)"

fun or_0x20 :: "char \<Rightarrow> char" where
  "or_0x20 (Char b0 b1 b2 b3 b4 b5 b6 b7) = Char b0 b1 b2 b3 b4 True b6 b7"

text \<open>
  The loop of \<open>valid_name\<close> over the index: \<open>first\<close> and \<open>last_char\<close> are its two
  variables, \<open>seen\<close> is the part of the name before the index, as the loop has rewritten
  it, and the last argument is the part from the index on.
\<close>

fun valid_name_loop :: "bool \<Rightarrow> char \<Rightarrow> string \<Rightarrow> string \<Rightarrow> exn + string" where
  "valid_name_loop first last_char seen [] =
     (if last_char = CHR ''-'' then Inl invalid_name else Inr seen)"
| "valid_name_loop first last_char seen (c # rest) =
     (if c = CHR ''-'' then
        (if first then Inl invalid_name
         else if last_char = CHR ''-'' then Inl invalid_name
         else valid_name_loop False c (seen @ [c]) rest)
      else if is_digit c then
        (if first then Inl invalid_name
         else valid_name_loop False c (seen @ [c]) rest)
      else if schar (CHR ''A'') \<le> schar c \<and> schar c \<le> schar (CHR ''Z'') then
        valid_name_loop False (or_0x20 c) (seen @ [or_0x20 c]) rest
      else if schar c < schar (CHR ''a'') \<or> schar (CHR ''z'') < schar c then
        Inl invalid_name
      else valid_name_loop False c (seen @ [c]) rest)"

definition valid_name :: "string \<Rightarrow> exn + string" where
  "valid_name name =
     (if name = [] then Inl invalid_name
      else valid_name_loop True (CHR 0x00) [] name)"

section \<open>The flag object: constructor and setters\<close>

definition flag_new :: "string \<Rightarrow> string \<Rightarrow> string \<Rightarrow> exn + flag" where
  "flag_new unit section name =
     and_then (valid_name unit) (\<lambda>unit.
     and_then (valid_name section) (\<lambda>section.
     and_then (valid_name name) (\<lambda>name.
       Inr (default_flag\<lparr>f_unit := unit, f_section := section, f_name := name\<rparr>))))"

definition set_state :: "state_t \<Rightarrow> flag \<Rightarrow> flag" where
  "set_state state this = this\<lparr>f_state := state\<rparr>"

definition set_source_file :: "string \<Rightarrow> flag \<Rightarrow> flag" where
  "set_source_file source_file this = this\<lparr>f_source_file := source_file\<rparr>"

definition set_function :: "string \<Rightarrow> flag \<Rightarrow> flag" where
  "set_function function this = this\<lparr>f_function := function\<rparr>"

definition set_line :: "32 word \<Rightarrow> flag \<Rightarrow> flag" where
  "set_line line this = this\<lparr>f_line := line\<rparr>"

definition set_message :: "string \<Rightarrow> flag \<Rightarrow> flag" where
  "set_message message this = this\<lparr>f_message := message\<rparr>"

definition set_priority :: "32 word \<Rightarrow> flag \<Rightarrow> flag" where
  "set_priority priority this =
     (if priority <s 0 then this\<lparr>f_priority := 0\<rparr>
      else if 100 <s priority then this\<lparr>f_priority := 100\<rparr>
      else this\<lparr>f_priority := priority\<rparr>)"

definition set_manual_down :: "bool \<Rightarrow> flag \<Rightarrow> flag" where
  "set_manual_down manual this = this\<lparr>f_manual_down := manual\<rparr>"

definition add_tag :: "string \<Rightarrow> flag \<Rightarrow> flag" where
  "add_tag tag this = this\<lparr>f_tags := set_insert tag (f_tags this)\<rparr>"

text \<open>
  Modelled from the spec: the macro \<open>COMMUNICATORD_FLAG_UP(unit, section, name, message)\<close>
  of the header \<open>flags.h\<close> (not among the sources).  It constructs the flag of that
  triple and sets its message, the source location of the caller and the state UP; it does
  not save the flag.
\<close>

definition COMMUNICATORD_FLAG_UP ::
  "string \<Rightarrow> string \<Rightarrow> string \<Rightarrow> string \<Rightarrow> string \<Rightarrow> string \<Rightarrow> 32 word \<Rightarrow> exn + flag" where
  "COMMUNICATORD_FLAG_UP unit section name message file function line =
     and_then (flag_new unit section name) (\<lambda>this.
       Inr (set_state STATE_UP (set_line line (set_function function
             (set_source_file file (set_message message this))))))"

section \<open>The directory of the flag files\<close>

definition stat :: "world \<Rightarrow> string \<Rightarrow> st_mode option" where
  "stat w path = stat_mode w path"

definition S_ISDIR :: "st_mode \<Rightarrow> bool" where
  "S_ISDIR m = (m = S_IFDIR)"

definition get_path_to_flag_files_internal :: "world \<Rightarrow> string" where
  "get_path_to_flag_files_internal w =
     (let server_config = flags_conf w
      in if has_parameter server_config ''path''
         then get_parameter server_config ''path''
         else ''/var/lib/communicatord/flags'')"

text \<open>
  \<open>get_path_to_flag_files()\<close>, as written: while the static is empty, the path is asked
  from \<open>get_path_to_flag_files()\<close> itself.  A call that does not return has the value
  \<open>None\<close>.  The static is part of the world, so the function is defined for every content
  of it.
\<close>

partial_function (option) get_path_to_flag_files :: "world \<Rightarrow> (string \<times> world) option" where
  "get_path_to_flag_files w =
     (if g_path_to_flag_files w = [] then
        Option.bind (get_path_to_flag_files w) (\<lambda>(path, w).
          (case stat w path of
             None \<Rightarrow>
               (let w = SNAP_LOG_ERROR (''could not find the flags directory '' @ [CHR 0x22] @ path
                          @ [CHR 0x22] @ ''; did you start communicatord yet? (it creates it if not yet present)'') w
                in Some (g_path_to_flag_files w, w))
           | Some s \<Rightarrow>
               if \<not> S_ISDIR s then
                 (let w = SNAP_LOG_ERROR (''could not create the flags directory '' @ [CHR 0x22] @ path
                            @ [CHR 0x22] @ ''; did you make your service part of the flags group?'') w
                  in Some (g_path_to_flag_files w, w))
               else
                 (let w = w\<lparr>g_path_to_flag_files := path\<rparr>
                  in Some (g_path_to_flag_files w, w))))
      else Some (g_path_to_flag_files w, w))"

definition get_filename :: "flag \<Rightarrow> world \<Rightarrow> (string \<times> flag \<times> world) option" where
  "get_filename this w =
     (if f_filename this = [] then
        Option.bind (get_path_to_flag_files w) (\<lambda>(path, w).
          (let this = this\<lparr>f_filename := path\<rparr>;
               this = (if f_filename this \<noteq> []
                       then this\<lparr>f_filename := f_filename this @ ''/'' @ f_unit this @ ''_''
                                    @ f_section this @ ''_'' @ f_name this @ ''.flag''\<rparr>
                       else this)
           in Some (f_filename this, this, w)))
      else Some (f_filename this, this, w))"

section \<open>Loading one flag from its record\<close>

text \<open>The body of the constructor \<open>flag(filename)\<close> once the configuration file is open.\<close>

definition load_fields :: "conf_file \<Rightarrow> flag \<Rightarrow> exn + flag" where
  "load_fields file this =
     (if \<not> has_parameter file ''unit''
       \<or> \<not> has_parameter file ''section''
       \<or> \<not> has_parameter file ''name''
       \<or> \<not> has_parameter file ''message''
      then Inl invalid_parameter
      else
        (let this = this\<lparr>f_unit := get_parameter file ''unit''\<rparr>;
             this = this\<lparr>f_section := get_parameter file ''section''\<rparr>;
             this = this\<lparr>f_name := get_parameter file ''name''\<rparr>;
             this = (if has_parameter file ''source_file''
                     then this\<lparr>f_source_file := get_parameter file ''source_file''\<rparr> else this);
             this = (if has_parameter file ''function''
                     then this\<lparr>f_function := get_parameter file ''function''\<rparr> else this)
         in
         and_then (if has_parameter file ''line''
                   then and_then (stol (get_parameter file ''line''))
                          (\<lambda>n. Inr (this\<lparr>f_line := word_of_int n\<rparr>))
                   else Inr this) (\<lambda>this.
         and_then (Inr (this\<lparr>f_message := get_parameter file ''message''\<rparr>)) (\<lambda>this.
         and_then (if has_parameter file ''priority''
                   then and_then (stol (get_parameter file ''priority''))
                          (\<lambda>n. Inr (this\<lparr>f_priority := word_of_int n\<rparr>))
                   else Inr this) (\<lambda>this.
         and_then (Inr (if has_parameter file ''manual_down''
                        then this\<lparr>f_manual_down := (get_parameter file ''manual_down'' = ''yes'')\<rparr>
                        else this)) (\<lambda>this.
         and_then (if has_parameter file ''date''
                   then and_then (stol (get_parameter file ''date''))
                          (\<lambda>n. Inr (this\<lparr>f_date := word_of_int n\<rparr>))
                   else Inr this) (\<lambda>this.
         and_then (if has_parameter file ''modified''
                   then and_then (stol (get_parameter file ''modified''))
                          (\<lambda>n. Inr (this\<lparr>f_modified := word_of_int n\<rparr>))
                   else Inr this) (\<lambda>this.
         and_then (Inr (if has_parameter file ''tags''
                        then (let tags = get_parameter file ''tags'';
                                  tag_list = tokenize_string tags '','' True
                                               [CHR '' '', CHR 0x0A, CHR 0x0D, CHR 0x09]
                              in this\<lparr>f_tags := fold set_insert tag_list (f_tags this)\<rparr>)
                        else this)) (\<lambda>this.
         and_then (Inr (if has_parameter file ''hostname''
                        then this\<lparr>f_hostname := get_parameter file ''hostname''\<rparr>
                        else this)) (\<lambda>this.
         and_then (if has_parameter file ''count''
                   then and_then (stol (get_parameter file ''count''))
                          (\<lambda>n. Inr (this\<lparr>f_count := word_of_int n\<rparr>))
                   else Inr this) (\<lambda>this.
         Inr (if has_parameter file ''version''
              then this\<lparr>f_version := get_parameter file ''version''\<rparr>
              else this))))))))))))"

text \<open>
  The two shapes of an optional field of the record, for reasoning about the constructor
  step by step: a number read with \<open>std::stol\<close>, and a text.
\<close>

definition opt_long :: "conf_file \<Rightarrow> string \<Rightarrow> (int \<Rightarrow> flag \<Rightarrow> flag) \<Rightarrow> flag \<Rightarrow> exn + flag" where
  "opt_long file name assign this =
     (if has_parameter file name
      then and_then (stol (get_parameter file name)) (\<lambda>n. Inr (assign n this))
      else Inr this)"

definition opt_text :: "conf_file \<Rightarrow> string \<Rightarrow> (string \<Rightarrow> flag \<Rightarrow> flag) \<Rightarrow> flag \<Rightarrow> flag" where
  "opt_text file name assign this =
     (if has_parameter file name then assign (get_parameter file name) this else this)"

definition flag_load :: "string \<Rightarrow> world \<Rightarrow> ((exn + flag) \<times> world) option" where
  "flag_load filename w =
     (let this = default_flag\<lparr>f_filename := filename\<rparr>
      in if f_filename this = [] then Some (Inl invalid_parameter, w)
         else Option.bind (get_filename this w) (\<lambda>(setup, this, w).
                Some (load_fields (get_conf_file w setup) this, w)))"

section \<open>Saving a flag\<close>

definition save :: "flag \<Rightarrow> world \<Rightarrow> ((exn + bool) \<times> flag \<times> world) option" where
  "save this w =
     Option.bind (get_filename this w) (\<lambda>(filename, this, w).
       if filename = [] then Some (Inr False, this, w)
       else if f_state this = STATE_UP then
         (let file = get_conf_file w filename;
              exists = conf_exists w filename;
              has_date = (exists \<and> has_parameter file ''date'');
              has_count = (exists \<and> has_parameter file ''count'');
              now = to_string (sint (time_now w));
              file = set_parameter ''unit'' (f_unit this) file;
              file = set_parameter ''section'' (f_section this) file;
              file = set_parameter ''name'' (f_name this) file;
              file = set_parameter ''source_file'' (f_source_file this) file;
              file = set_parameter ''function'' (f_function this) file;
              file = set_parameter ''line'' (to_string (sint (f_line this))) file;
              file = set_parameter ''message'' (f_message this) file;
              file = set_parameter ''priority'' (to_string (sint (f_priority this))) file;
              file = set_parameter ''manual_down'' (if f_manual_down this then ''yes'' else ''no'') file;
              file = (if \<not> has_date then set_parameter ''date'' now file else file);
              file = set_parameter ''modified'' now file;
              file = set_parameter ''tags'' (join_strings (f_tags this) '','') file;
              file = set_parameter ''hostname'' (gethostname w) file;
              file = set_parameter ''version'' (COMMUNICATORD_VERSION_STRING w) file
          in case (if has_count
                   then and_then (stol (get_parameter file ''count''))
                          (\<lambda>n. Inr (set_parameter ''count'' (to_string (long_add n 1)) file))
                   else Inr (set_parameter ''count'' ''1'' file)) of
               Inl e \<Rightarrow> Some (Inl e, this, w)
             | Inr file \<Rightarrow>
                 (case save_configuration filename ''.bak'' file w of
                    (result, w) \<Rightarrow> Some (Inr result, this, w)))
       else
         (case unlink filename w of
            (err, w) \<Rightarrow>
              (let result = (err = None);
                   result = (if \<not> result \<and> err = Some ENOENT then True else result)
               in Some (Inr result, this, w))))"

text \<open>
  The record that \<open>save()\<close> hands to \<open>save_configuration\<close> when the record it opened
  held \<open>old\<close>: the parameters of \<open>old\<close> with the fields of the flag set, in one map.
\<close>

definition written :: "flag \<Rightarrow> world \<Rightarrow> conf_file \<Rightarrow> conf_file" where
  "written this w old =
     (let now = to_string (sint (time_now w)) in
      old(''unit'' \<mapsto> f_unit this, ''section'' \<mapsto> f_section this, ''name'' \<mapsto> f_name this,
          ''source_file'' \<mapsto> f_source_file this, ''function'' \<mapsto> f_function this,
          ''line'' \<mapsto> to_string (sint (f_line this)), ''message'' \<mapsto> f_message this,
          ''priority'' \<mapsto> to_string (sint (f_priority this)),
          ''manual_down'' \<mapsto> (if f_manual_down this then ''yes'' else ''no''),
          ''date'' \<mapsto> (if has_parameter old ''date'' then get_parameter old ''date'' else now),
          ''modified'' \<mapsto> now, ''tags'' \<mapsto> join_strings (f_tags this) '','',
          ''hostname'' \<mapsto> gethostname w, ''version'' \<mapsto> COMMUNICATORD_VERSION_STRING w,
          ''count'' \<mapsto> (if has_parameter old ''count''
                         then (case stol (get_parameter old ''count'') of
                                 Inr n \<Rightarrow> to_string (long_add n 1) | Inl e \<Rightarrow> [])
                         else ''1'')))"

section \<open>Loading all the flags\<close>

text \<open>
  The loop of \<open>load_flags()\<close> over the file names that the enumerator gave: \<open>result\<close> is
  the vector built so far.  The flag of the overflow is made by the macro, then given its
  priority and its two tags, and pushed; the loop stops there.
\<close>

fun load_flags_loop ::
  "string \<Rightarrow> string list \<Rightarrow> flag list \<Rightarrow> world \<Rightarrow> ((exn + flag list) \<times> world) option" where
  "load_flags_loop path [] result w = Some (Inr result, w)"
| "load_flags_loop path (filename # rest) result w =
     (if FLAGS_LIMIT \<le> length result then
        (case COMMUNICATORD_FLAG_UP ''communicatord'' ''flag'' ''too-many-flags''
                (''too many flags were raised, showing only the first 100,''
                 @ '' others can be viewed on this system at '' @ [CHR 0x22] @ path @ [CHR 0x22])
                (macro_file w) ''load_flags'' (macro_line w) of
           Inl e \<Rightarrow> Some (Inl e, w)
         | Inr flag \<Rightarrow>
             (let flag = set_priority 97 flag;
                  flag = add_tag ''flag'' flag;
                  flag = add_tag ''too-many'' flag
              in Some (Inr (result @ [flag]), w)))
      else
        (case flag_load filename w of
           None \<Rightarrow> None
         | Some (Inl e, w) \<Rightarrow> Some (Inl e, w)
         | Some (Inr loaded, w) \<Rightarrow> load_flags_loop path rest (result @ [loaded]) w))"

definition load_flags :: "world \<Rightarrow> ((exn + flag list) \<times> world) option" where
  "load_flags w =
     Option.bind (get_path_to_flag_files w) (\<lambda>(path, w).
       if path = [] then Some (Inr [], w)
       else load_flags_loop path (glob_to_list w (path @ ''/*.flag'')) [] w)"

text \<open>The flag of the overflow, field by field, as the loop builds it for a directory
  \<open>path\<close>.\<close>

definition too_many_flags :: "string \<Rightarrow> world \<Rightarrow> flag" where
  "too_many_flags path w =
     default_flag\<lparr>f_unit := ''communicatord'', f_section := ''flag'',
       f_name := ''too-many-flags'',
       f_message := ''too many flags were raised, showing only the first 100,''
                    @ '' others can be viewed on this system at '' @ [CHR 0x22] @ path @ [CHR 0x22],
       f_source_file := macro_file w, f_function := ''load_flags'', f_line := macro_line w,
       f_priority := 97, f_tags := [''flag'', ''too-many'']\<rparr>"

section \<open>The grammar of names, as the specification writes it\<close>

text \<open>
  Regular expressions over characters and the strings they match as a whole (the anchors
  \<open>^\<close> and \<open>$\<close>).  \<open>Range a b\<close> is the class \<open>[a-b]\<close>, \<open>Plus r\<close> is \<open>r+\<close>.
\<close>

datatype rexp =
    Lit char
  | Range char char
  | Alt rexp rexp
  | Seq rexp rexp
  | Star rexp
  | Plus rexp

inductive_set star :: "string set \<Rightarrow> string set" for A :: "string set" where
  star_empty: "[] \<in> star A"
| star_step: "u \<in> A \<Longrightarrow> v \<in> star A \<Longrightarrow> u @ v \<in> star A"

fun lang :: "rexp \<Rightarrow> string set" where
  "lang (Lit c) = {[c]}"
| "lang (Range a b) = {[c] | c. (of_char a :: nat) \<le> of_char c \<and> (of_char c :: nat) \<le> of_char b}"
| "lang (Alt r s) = lang r \<union> lang s"
| "lang (Seq r s) = {u @ v | u v. u \<in> lang r \<and> v \<in> lang s}"
| "lang (Star r) = star (lang r)"
| "lang (Plus r) = {u @ v | u v. u \<in> lang r \<and> v \<in> star (lang r)}"

text \<open>The expression \<open>^[a-z][a-z0-9]*(-[a-z0-9]+)*$\<close>.\<close>

definition lower_re :: rexp where
  "lower_re = Range (CHR ''a'') (CHR ''z'')"

definition alnum_re :: rexp where
  "alnum_re = Alt (Range (CHR ''a'') (CHR ''z'')) (Range (CHR ''0'') (CHR ''9''))"

definition group_re :: rexp where
  "group_re = Seq (Lit (CHR ''-'')) (Plus alnum_re)"

definition name_re :: rexp where
  "name_re = Seq lower_re (Seq (Star alnum_re) (Star group_re))"

text \<open>The characters that a name may be written with: \<open>a-z\<close>, \<open>A-Z\<close>, \<open>0-9\<close> and the dash.\<close>

definition allowed_char :: "char \<Rightarrow> bool" where
  "allowed_char c =
     ((of_char (CHR ''a'') \<le> (of_char c :: nat) \<and> (of_char c :: nat) \<le> of_char (CHR ''z''))
      \<or> (of_char (CHR ''A'') \<le> (of_char c :: nat) \<and> (of_char c :: nat) \<le> of_char (CHR ''Z''))
      \<or> (of_char (CHR ''0'') \<le> (of_char c :: nat) \<and> (of_char c :: nat) \<le> of_char (CHR ''9''))
      \<or> c = CHR ''-'')"

text \<open>Folding to lower case: an upper-case letter gets bit 5, any other byte is kept.\<close>

definition fold_lower :: "char \<Rightarrow> char" where
  "fold_lower c =
     (if schar (CHR ''A'') \<le> schar c \<and> schar c \<le> schar (CHR ''Z'') then or_0x20 c else c)"

definition lower_char :: "char \<Rightarrow> bool" where
  "lower_char c = (97 \<le> (of_char c :: nat) \<and> (of_char c :: nat) \<le> 122)"

definition alnum_char :: "char \<Rightarrow> bool" where
  "alnum_char c = (lower_char c \<or> (48 \<le> (of_char c :: nat) \<and> (of_char c :: nat) \<le> 57))"

text \<open>
  What the loop of the validator knows of the part it has accepted: nothing at the start,
  then a name, or a name followed by one dash.
\<close>

definition loop_inv :: "bool \<Rightarrow> char \<Rightarrow> string \<Rightarrow> bool" where
  "loop_inv first last_char seen =
     (if first then seen = []
      else if last_char = CHR ''-'' then (\<exists>s. seen = s @ [CHR ''-''] \<and> s \<in> lang name_re)
      else seen \<in> lang name_re)"

text \<open>Two dashes in a row, somewhere in the string.\<close>

fun has_double_dash :: "string \<Rightarrow> bool" where
  "has_double_dash (a # b # rest) =
     ((a = CHR ''-'' \<and> b = CHR ''-'') \<or> has_double_dash (b # rest))"
| "has_double_dash rest = False"

section \<open>Sequences of setter calls\<close>

datatype setter_call =
    Set_state state_t
  | Set_source_file string
  | Set_function string
  | Set_line "32 word"
  | Set_message string
  | Set_priority "32 word"
  | Set_manual_down bool
  | Add_tag string

fun call_setter :: "setter_call \<Rightarrow> flag \<Rightarrow> flag" where
  "call_setter (Set_state x) this = set_state x this"
| "call_setter (Set_source_file x) this = set_source_file x this"
| "call_setter (Set_function x) this = set_function x this"
| "call_setter (Set_line x) this = set_line x this"
| "call_setter (Set_message x) this = set_message x this"
| "call_setter (Set_priority x) this = set_priority x this"
| "call_setter (Set_manual_down x) this = set_manual_down x this"
| "call_setter (Add_tag x) this = add_tag x this"

definition priority_in_range :: "flag \<Rightarrow> bool" where
  "priority_in_range this = (0 \<le> sint (f_priority this) \<and> sint (f_priority this) \<le> 100)"

section \<open>Concrete worlds and flags\<close>

text \<open>
  The world of a process with the given record files and directory listing: the static is
  empty, as its initialiser leaves it, the default flags directory exists, every path may
  be written and removed, nothing is configured.
\<close>

definition flags_dir :: string where
  "flags_dir = ''/var/lib/communicatord/flags''"

definition test_world :: "(string \<rightharpoonup> conf_file) \<Rightarrow> string list \<Rightarrow> world" where
  "test_world fs listing =
     \<lparr> g_path_to_flag_files = [], flags_conf = Map.empty,
       stat_mode = [flags_dir \<mapsto> S_IFDIR], files = fs, writable = (\<lambda>path. True),
       refused = Map.empty, glob_to_list = (\<lambda>pattern. listing), time_now = 1700000000,
       gethostname = ''host1'',
       COMMUNICATORD_VERSION_STRING = ''1.0.0'', macro_file = ''flags.cpp'',
       macro_line = 1105, logged = [] \<rparr>"

text \<open>A process that has just started, with no record on disk.\<close>

definition fresh_process :: world where
  "fresh_process = test_world Map.empty []"

definition clamav_flag :: flag where
  "clamav_flag =
     default_flag\<lparr>f_unit := ''core-plugins'', f_section := ''attachment'',
                  f_name := ''clamav-missing''\<rparr>"

definition clamav_path :: string where
  "clamav_path = ''/var/lib/communicatord/flags/core-plugins_attachment_clamav-missing.flag''"

text \<open>A world where the record of that flag is on disk, and the flag loaded from it.\<close>

definition clamav_record :: conf_file where
  "clamav_record =
     [''unit'' \<mapsto> ''core-plugins'', ''section'' \<mapsto> ''attachment'',
      ''name'' \<mapsto> ''clamav-missing'', ''message'' \<mapsto> ''clamav not installed'',
      ''date'' \<mapsto> ''1600000000'', ''count'' \<mapsto> ''1'']"

definition flagged_world :: world where
  "flagged_world = test_world [clamav_path \<mapsto> clamav_record] [clamav_path]"

definition loaded_clamav :: flag where
  "loaded_clamav =
     default_flag\<lparr>f_filename := clamav_path, f_unit := ''core-plugins'',
       f_section := ''attachment'', f_name := ''clamav-missing'',
       f_message := ''clamav not installed'', f_date := 1600000000, f_count := 1\<rparr>"

definition cleared_flag :: flag where
  "cleared_flag = set_state STATE_DOWN loaded_clamav"

text \<open>The same record with a priority of 250, as a file edited by hand may hold.\<close>

definition loud_record :: conf_file where
  "loud_record = clamav_record(''priority'' \<mapsto> ''250'')"

definition loud_world :: world where
  "loud_world = test_world [clamav_path \<mapsto> loud_record] [clamav_path]"

definition loud_flag :: flag where
  "loud_flag = loaded_clamav\<lparr>f_priority := 250\<rparr>"

text \<open>
  The world after the record of that flag has been removed; and the same world with a
  directory standing at the path of the record, which the system refuses to remove.
\<close>

definition cleared_world :: world where
  "cleared_world = flagged_world\<lparr>files := (files flagged_world)(clamav_path := None)\<rparr>"

definition blocked_world :: world where
  "blocked_world = cleared_world\<lparr>refused := [clamav_path \<mapsto> EISDIR]\<rparr>"

text \<open>The flag of that triple as the program builds it to raise or to clear it.\<close>

definition built_flag :: flag where
  "built_flag = set_message ''clamav not installed'' clamav_flag"

text \<open>
  A process whose flags directory holds 101 files, each a valid record; and one whose
  directory holds a record without message, then a valid one.
\<close>

definition crowded_names :: "string list" where
  "crowded_names = map (\<lambda>i. flags_dir @ ''/u_s_n'' @ dec i @ ''.flag'') [0..<101]"

definition crowded_world :: world where
  "crowded_world =
     test_world
       (\<lambda>filename. if filename \<in> set crowded_names then Some clamav_record else None)
       crowded_names"

definition broken_path :: string where
  "broken_path = ''/var/lib/communicatord/flags/a_b_c.flag''"

definition broken_record :: conf_file where
  "broken_record = [''unit'' \<mapsto> ''a'', ''section'' \<mapsto> ''b'', ''name'' \<mapsto> ''c'']"

definition spoiled_world :: world where
  "spoiled_world =
     test_world [broken_path \<mapsto> broken_record, clamav_path \<mapsto> clamav_record]
       [broken_path, clamav_path]"

text \<open>The loaded flag with one more tag, which holds a comma.\<close>

definition comma_flag :: flag where
  "comma_flag = add_tag ''a,b'' loaded_clamav"

section \<open>Resolution of the flags directory\<close>

text \<open>
  A call of \<open>get_path_to_flag_files()\<close> returns only when the static holds a path already;
  from an empty static it does not return, and so it never writes the static.  The static
  starts empty and nothing else writes it: it is empty in every state that a process
  reaches.  A flag built from its file has its file name from the start, and its \<open>save()\<close>
  does not ask for the directory.  A flag built from its triple has no file name, and its
  \<open>save()\<close> asks for the directory; so does \<open>load_flags()\<close>, before anything else.
\<close>

lemma get_path_returns_resolved:
  assumes "get_path_to_flag_files w = Some r"
  shows "g_path_to_flag_files w \<noteq> []"
  by (rule get_path_to_flag_files.raw_induct
        [where P = "\<lambda>w r. g_path_to_flag_files w \<noteq> []", OF _ assms])
     (auto split: if_splits simp: bind_eq_Some_conv)

lemma get_path_unresolved:
  "g_path_to_flag_files w = [] \<Longrightarrow> get_path_to_flag_files w = None"
  using get_path_returns_resolved [of w] by (cases "get_path_to_flag_files w") auto

lemma get_path_resolved:
  "g_path_to_flag_files w \<noteq> [] \<Longrightarrow>
   get_path_to_flag_files w = Some (g_path_to_flag_files w, w)"
  by (subst get_path_to_flag_files.simps) simp

lemma get_path_returns:
  assumes "get_path_to_flag_files w = Some (path, w')"
  shows "g_path_to_flag_files w \<noteq> [] \<and> path = g_path_to_flag_files w \<and> w' = w"
  using get_path_returns_resolved [OF assms] get_path_resolved [of w] assms by simp

lemma get_filename_cached:
  "f_filename this \<noteq> [] \<Longrightarrow> get_filename this w = Some (f_filename this, this, w)"
  by (simp add: get_filename_def)

lemma get_filename_fresh:
  "f_filename this = [] \<Longrightarrow> g_path_to_flag_files w \<noteq> [] \<Longrightarrow>
   get_filename this w =
     Some (g_path_to_flag_files w @ ''/'' @ f_unit this @ ''_'' @ f_section this @ ''_''
             @ f_name this @ ''.flag'',
           this\<lparr>f_filename := g_path_to_flag_files w @ ''/'' @ f_unit this @ ''_''
                    @ f_section this @ ''_'' @ f_name this @ ''.flag''\<rparr>, w)"
  by (simp add: get_filename_def get_path_resolved)

lemma get_filename_unresolved:
  "f_filename this = [] \<Longrightarrow> g_path_to_flag_files w = [] \<Longrightarrow> get_filename this w = None"
  by (simp add: get_filename_def get_path_unresolved)

lemma get_filename_Some:
  assumes "get_filename this w = Some (filename, this', w')"
  shows "filename \<noteq> [] \<and> w' = w \<and> this' = this\<lparr>f_filename := filename\<rparr>"
proof (cases "f_filename this = []")
  case True
  then have "g_path_to_flag_files w \<noteq> []"
    using assms get_filename_unresolved [of this w] by auto
  with True assms show ?thesis by (auto simp: get_filename_fresh)
next
  case False
  with assms show ?thesis by (auto simp: get_filename_cached)
qed

lemma fresh_process_unresolved: "g_path_to_flag_files fresh_process = []"
  by (simp add: fresh_process_def test_world_def)

lemma clamav_flag_no_filename: "f_filename clamav_flag = []"
  by (simp add: clamav_flag_def default_flag_def)

text \<open>
  C3 (every operation terminates; resolving the flags directory initializes the cache on
  first use and returns, also while the cached path is still empty).  The code does not:
  in a process that has just started the static is empty, and the resolution asks itself
  for the path before it looks at anything else, so the call never returns.  With it, the
  first \<open>get_filename()\<close> of a fresh flag, its \<open>save()\<close> and \<open>load_flags()\<close> never
  return either.  The function that reads the configured path is total, and is not called.
\<close>

theorem C3_resolution_never_returns:
  "get_path_to_flag_files fresh_process = None
   \<and> get_filename clamav_flag fresh_process = None
   \<and> save clamav_flag fresh_process = None
   \<and> load_flags fresh_process = None
   \<and> get_path_to_flag_files_internal fresh_process = flags_dir"
proof -
  have p: "get_path_to_flag_files fresh_process = None"
    by (rule get_path_unresolved [OF fresh_process_unresolved])
  have f: "get_filename clamav_flag fresh_process = None"
    by (rule get_filename_unresolved [OF clamav_flag_no_filename fresh_process_unresolved])
  have s: "save clamav_flag fresh_process = None"
    by (simp add: save_def f)
  have l: "load_flags fresh_process = None"
    by (simp add: load_flags_def p)
  have i: "get_path_to_flag_files_internal fresh_process = flags_dir"
    by (simp add: get_path_to_flag_files_internal_def fresh_process_def test_world_def
          has_parameter_def flags_dir_def)
  from p f s l i show ?thesis by simp
qed

theorem C3_resolution_never_returns_witness:
  "flag_new ''core-plugins'' ''attachment'' ''clamav-missing'' = Inr clamav_flag
   \<and> save clamav_flag fresh_process = None"
proof -
  have "flag_new ''core-plugins'' ''attachment'' ''clamav-missing'' = Inr clamav_flag"
    by (simp add: flag_new_def and_then_def valid_name_def schar_def is_digit_def
          clamav_flag_def)
  with C3_resolution_never_returns show ?thesis by simp
qed

section \<open>The name validator and the grammar\<close>

lemma of_char_le_255: "(of_char c :: nat) \<le> 255"
  by (cases c) (simp add: of_bool_def)

lemma upper_iff:
  "(schar (CHR ''A'') \<le> schar c \<and> schar c \<le> schar (CHR ''Z''))
     = (65 \<le> (of_char c :: nat) \<and> (of_char c :: nat) \<le> 90)"
  using of_char_le_255 [of c] by (auto simp: schar_def)

lemma not_lower_iff:
  "(schar c < schar (CHR ''a'') \<or> schar (CHR ''z'') < schar c)
     = (\<not> (97 \<le> (of_char c :: nat) \<and> (of_char c :: nat) \<le> 122))"
  using of_char_le_255 [of c] by (auto simp: schar_def)

lemma or_0x20_upper:
  assumes "65 \<le> (of_char c :: nat)" "(of_char c :: nat) \<le> 90"
  shows "(of_char (or_0x20 c) :: nat) = of_char c + 32"
proof (cases c)
  case (Char b0 b1 b2 b3 b4 b5 b6 b7)
  with assms show ?thesis
    by (cases b5; cases b6; cases b7) (auto simp: of_bool_def split: if_splits)
qed

lemma is_digit_iff: "is_digit c = (48 \<le> (of_char c :: nat) \<and> (of_char c :: nat) \<le> 57)"
proof
  assume "is_digit c"
  then show "48 \<le> (of_char c :: nat) \<and> (of_char c :: nat) \<le> 57"
    by (auto simp: is_digit_def)
next
  assume r: "48 \<le> (of_char c :: nat) \<and> (of_char c :: nat) \<le> 57"
  define n where "n = (of_char c :: nat)"
  have c: "c = char_of n" by (simp add: n_def)
  from r have "n = 48 \<or> n = 49 \<or> n = 50 \<or> n = 51 \<or> n = 52 \<or> n = 53 \<or> n = 54 \<or> n = 55 \<or> n = 56 \<or> n = 57"
    unfolding n_def by presburger
  then show "is_digit c"
    unfolding c by (elim disjE) (simp_all add: is_digit_def char_of_def bit_Suc_0_iff)
qed

subsection \<open>Iteration of a language\<close>

lemma star_single: "u \<in> A \<Longrightarrow> u \<in> star A"
  using star_step [of u A "[]"] by (simp add: star_empty)

lemma star_append: "u \<in> star A \<Longrightarrow> v \<in> star A \<Longrightarrow> u @ v \<in> star A"
  by (induction u rule: star.induct) (auto intro: star_step)

lemma star_snoc: "v \<in> star A \<Longrightarrow> u \<in> A \<Longrightarrow> v @ u \<in> star A"
  by (rule star_append) (auto intro: star_single)

lemma star_last:
  "v \<in> star A \<Longrightarrow> v = [] \<or> (\<exists>v' u. v = v' @ u \<and> v' \<in> star A \<and> u \<in> A)"
proof (induction v rule: star.induct)
  case star_empty
  then show ?case by simp
next
  case (star_step u v)
  from star_step.IH show ?case
  proof
    assume "v = []"
    then have "u @ v = [] @ u" by simp
    with star_step.hyps(1) show ?thesis using star.star_empty by blast
  next
    assume "\<exists>v' x. v = v' @ x \<and> v' \<in> star A \<and> x \<in> A"
    then obtain v' x where v: "v = v' @ x" "v' \<in> star A" "x \<in> A" by blast
    have "u @ v' \<in> star A" using star_step.hyps(1) v(2) by (rule star.star_step)
    moreover have "u @ v = (u @ v') @ x" using v(1) by simp
    ultimately show ?thesis using v(3) by blast
  qed
qed

subsection \<open>Names grow at the right end\<close>

lemma lower_lang: "lower_char c \<Longrightarrow> [c] \<in> lang lower_re"
  by (simp add: lower_re_def lower_char_def)

lemma alnum_lang: "alnum_char c \<Longrightarrow> [c] \<in> lang alnum_re"
  by (auto simp: alnum_re_def alnum_char_def lower_char_def)

lemma name_first: assumes "lower_char c" shows "[c] \<in> lang name_re"
proof -
  have "[c] = [c] @ [] @ []" by simp
  moreover have "[] \<in> star (lang alnum_re)" "[] \<in> star (lang group_re)"
    by (rule star_empty)+
  ultimately show ?thesis
    unfolding name_re_def using lower_lang [OF assms]
    by (simp only: lang.simps) blast
qed

lemma name_decompose:
  "s \<in> lang name_re \<longleftrightarrow>
     (\<exists>a u v. s = a @ u @ v \<and> a \<in> lang lower_re \<and> u \<in> star (lang alnum_re)
        \<and> v \<in> star (lang group_re))"
  unfolding name_re_def by (simp only: lang.simps) blast

lemma group_snoc:
  assumes "g \<in> lang group_re" "alnum_char c"
  shows "g @ [c] \<in> lang group_re"
proof -
  from assms(1) obtain x y where g: "g = [CHR ''-''] @ x @ y" "x \<in> lang alnum_re"
      "y \<in> star (lang alnum_re)"
    unfolding group_re_def by (simp only: lang.simps) blast
  have "y @ [c] \<in> star (lang alnum_re)"
    using g(3) alnum_lang [OF assms(2)] by (rule star_snoc)
  moreover have "g @ [c] = [CHR ''-''] @ (x @ (y @ [c]))" using g(1) by simp
  ultimately show ?thesis using g(2) unfolding group_re_def by (simp only: lang.simps) blast
qed

lemma name_snoc:
  assumes "s \<in> lang name_re" "alnum_char c"
  shows "s @ [c] \<in> lang name_re"
proof -
  from assms(1) obtain a u v where s: "s = a @ u @ v" "a \<in> lang lower_re"
      "u \<in> star (lang alnum_re)" "v \<in> star (lang group_re)"
    unfolding name_decompose by blast
  from star_last [OF s(4)] show ?thesis
  proof
    assume "v = []"
    then have "s @ [c] = a @ (u @ [c]) @ []" using s(1) by simp
    moreover have "u @ [c] \<in> star (lang alnum_re)"
      using s(3) alnum_lang [OF assms(2)] by (rule star_snoc)
    moreover have "[] \<in> star (lang group_re)" by (rule star_empty)
    ultimately show ?thesis unfolding name_decompose using s(2) by blast
  next
    assume "\<exists>v' g. v = v' @ g \<and> v' \<in> star (lang group_re) \<and> g \<in> lang group_re"
    then obtain v' g where v: "v = v' @ g" "v' \<in> star (lang group_re)" "g \<in> lang group_re"
      by blast
    have "v' @ (g @ [c]) \<in> star (lang group_re)"
      using v(2) group_snoc [OF v(3) assms(2)] by (rule star_snoc)
    moreover have "s @ [c] = a @ u @ (v' @ (g @ [c]))" using s(1) v(1) by simp
    ultimately show ?thesis unfolding name_decompose using s(2,3) by blast
  qed
qed

lemma name_dash_snoc:
  assumes "s \<in> lang name_re" "alnum_char c"
  shows "(s @ [CHR ''-'']) @ [c] \<in> lang name_re"
proof -
  from assms(1) obtain a u v where s: "s = a @ u @ v" "a \<in> lang lower_re"
      "u \<in> star (lang alnum_re)" "v \<in> star (lang group_re)"
    unfolding name_decompose by blast
  have "[CHR ''-''] @ [c] @ [] \<in> lang group_re"
    using alnum_lang [OF assms(2)] star_empty [of "lang alnum_re"]
    unfolding group_re_def by (simp only: lang.simps) blast
  then have "v @ ([CHR ''-''] @ [c] @ []) \<in> star (lang group_re)"
    using s(4) by (intro star_snoc)
  moreover have "(s @ [CHR ''-'']) @ [c] = a @ u @ (v @ ([CHR ''-''] @ [c] @ []))"
    using s(1) by simp
  ultimately show ?thesis unfolding name_decompose using s(2,3) by blast
qed


subsection \<open>The loop of the validator\<close>

lemma valid_name_loop_error:
  "valid_name_loop first last_char seen rest = Inl e \<Longrightarrow> e = invalid_name"
  by (induction rest arbitrary: first last_char seen) (auto split: if_splits)

lemma valid_name_loop_shape:
  "valid_name_loop first last_char seen rest = Inr t \<Longrightarrow> t = seen @ map fold_lower rest"
proof (induction rest arbitrary: first last_char seen)
  case Nil
  then show ?case by (simp split: if_splits)
next
  case (Cons c rest)
  have "\<exists>l. valid_name_loop False l (seen @ [fold_lower c]) rest = Inr t"
    using Cons.prems
    by (auto simp: fold_lower_def upper_iff is_digit_iff split: if_splits)
  then obtain l where "valid_name_loop False l (seen @ [fold_lower c]) rest = Inr t" ..
  from Cons.IH [OF this] show ?case by simp
qed

lemma loop_inv_alnum:
  assumes "loop_inv first last_char seen" "alnum_char c" "first \<longrightarrow> lower_char c"
  shows "loop_inv False c (seen @ [c])"
proof -
  have c: "c \<noteq> CHR ''-''" using assms(2) by (auto simp: alnum_char_def lower_char_def)
  have "seen @ [c] \<in> lang name_re"
  proof (cases first)
    case True
    then show ?thesis using assms by (simp add: loop_inv_def name_first)
  next
    case False
    show ?thesis
    proof (cases "last_char = CHR ''-''")
      case True
      with False assms(1) obtain s where "seen = s @ [CHR ''-'']" "s \<in> lang name_re"
        by (auto simp: loop_inv_def)
      then show ?thesis using name_dash_snoc [OF _ assms(2)] by simp
    next
      case False
      with \<open>\<not> first\<close> assms(1) have "seen \<in> lang name_re" by (simp add: loop_inv_def)
      then show ?thesis by (rule name_snoc [OF _ assms(2)])
    qed
  qed
  with c show ?thesis by (simp add: loop_inv_def)
qed

lemma loop_inv_dash:
  assumes "loop_inv False last_char seen" "last_char \<noteq> CHR ''-''"
  shows "loop_inv False (CHR ''-'') (seen @ [CHR ''-''])"
  using assms by (simp add: loop_inv_def)

lemma valid_name_loop_grammar:
  "loop_inv first last_char seen \<Longrightarrow> (first \<longrightarrow> rest \<noteq> []) \<Longrightarrow>
   valid_name_loop first last_char seen rest = Inr t \<Longrightarrow> t \<in> lang name_re"
proof (induction rest arbitrary: first last_char seen)
  case Nil
  then show ?case by (auto simp: loop_inv_def split: if_splits)
next
  case (Cons c rest)
  show ?case
  proof (cases "c = CHR ''-''")
    case True
    with Cons.prems(3) have nf: "\<not> first" "last_char \<noteq> CHR ''-''"
      and r: "valid_name_loop False c (seen @ [c]) rest = Inr t"
      by (auto split: if_splits)
    have "loop_inv False c (seen @ [c])"
      using loop_inv_dash [of last_char seen] Cons.prems(1) nf True by simp
    then show ?thesis using Cons.IH [OF _ _ r] by simp
  next
    case nd: False
    show ?thesis
    proof (cases "is_digit c")
      case True
      with nd Cons.prems(3) have nf: "\<not> first"
        and r: "valid_name_loop False c (seen @ [c]) rest = Inr t"
        by (auto split: if_splits)
      have "alnum_char c" using True by (simp add: alnum_char_def is_digit_iff)
      then have "loop_inv False c (seen @ [c])"
        using loop_inv_alnum [OF Cons.prems(1)] nf by simp
      then show ?thesis using Cons.IH [OF _ _ r] by simp
    next
      case ng: False
      show ?thesis
      proof (cases "schar (CHR ''A'') \<le> schar c \<and> schar c \<le> schar (CHR ''Z'')")
        case True
        with nd ng Cons.prems(3)
        have r: "valid_name_loop False (or_0x20 c) (seen @ [or_0x20 c]) rest = Inr t"
          by simp
        from True have "65 \<le> (of_char c :: nat)" "(of_char c :: nat) \<le> 90"
          by (simp_all only: upper_iff)
        then have "lower_char (or_0x20 c)"
          using or_0x20_upper [of c] by (simp add: lower_char_def)
        then have "loop_inv False (or_0x20 c) (seen @ [or_0x20 c])"
          using loop_inv_alnum [OF Cons.prems(1), of "or_0x20 c"] by (simp add: alnum_char_def)
        then show ?thesis using Cons.IH [OF _ _ r] by simp
      next
        case nu: False
        with nd ng Cons.prems(3)
        have low: "\<not> (schar c < schar (CHR ''a'') \<or> schar (CHR ''z'') < schar c)"
          and r: "valid_name_loop False c (seen @ [c]) rest = Inr t"
          by (auto split: if_splits)
        from low have "lower_char c" by (simp only: not_lower_iff lower_char_def) simp
        then have "loop_inv False c (seen @ [c])"
          using loop_inv_alnum [OF Cons.prems(1), of c] by (simp add: alnum_char_def)
        then show ?thesis using Cons.IH [OF _ _ r] by simp
      qed
    qed
  qed
qed

lemma valid_name_loop_bad_char:
  "\<exists>c \<in> set rest. \<not> allowed_char c \<Longrightarrow> valid_name_loop first last_char seen rest = Inl invalid_name"
proof (induction rest arbitrary: first last_char seen)
  case Nil
  then show ?case by simp
next
  case (Cons c rest)
  show ?case
  proof (cases "allowed_char c")
    case True
    with Cons.prems have "\<exists>c \<in> set rest. \<not> allowed_char c" by simp
    then show ?thesis using Cons.IH by simp
  next
    case False
    then have "c \<noteq> CHR ''-''" "\<not> is_digit c"
      "\<not> (schar (CHR ''A'') \<le> schar c \<and> schar c \<le> schar (CHR ''Z''))"
      "schar c < schar (CHR ''a'') \<or> schar (CHR ''z'') < schar c"
      unfolding upper_iff not_lower_iff is_digit_iff by (auto simp: allowed_char_def)
    then show ?thesis by auto
  qed
qed

lemma valid_name_loop_double_dash:
  "valid_name_loop first last_char seen (u @ ''--'' @ v) = Inl invalid_name"
proof (induction u arbitrary: first last_char seen)
  case Nil
  then show ?case by simp
next
  case (Cons c u)
  then show ?case by simp
qed

lemma valid_name_loop_trailing_dash:
  "rest \<noteq> [] \<Longrightarrow> last rest = CHR ''-'' \<Longrightarrow>
   valid_name_loop first last_char seen rest = Inl invalid_name"
proof (induction rest arbitrary: first last_char seen)
  case Nil
  then show ?case by simp
next
  case (Cons c rest)
  then show ?case by (cases "rest = []") auto
qed

lemma has_double_dash_iff: "has_double_dash s \<longleftrightarrow> (\<exists>u v. s = u @ ''--'' @ v)"
proof (induction s rule: has_double_dash.induct)
  case (1 a b rest)
  show ?case
  proof
    assume "has_double_dash (a # b # rest)"
    then consider "a = CHR ''-''" "b = CHR ''-''" | "has_double_dash (b # rest)" by auto
    then show "\<exists>u v. a # b # rest = u @ ''--'' @ v"
    proof cases
      case 1
      then have "a # b # rest = [] @ ''--'' @ rest" by simp
      then show ?thesis by blast
    next
      case 2
      with 1 obtain u v where "b # rest = u @ ''--'' @ v" by blast
      then have "a # b # rest = (a # u) @ ''--'' @ v" by simp
      then show ?thesis by blast
    qed
  next
    assume "\<exists>u v. a # b # rest = u @ ''--'' @ v"
    then obtain u v where e: "a # b # rest = u @ ''--'' @ v" by blast
    show "has_double_dash (a # b # rest)"
    proof (cases u)
      case Nil
      with e show ?thesis by simp
    next
      case (Cons c u')
      with e have "b # rest = u' @ ''--'' @ v" by simp
      then have "has_double_dash (b # rest)" using 1 by blast
      then show ?thesis by simp
    qed
  qed
qed (auto simp: Cons_eq_append_conv)



lemma valid_name_loop_has_double_dash:
  assumes "has_double_dash rest"
  shows "valid_name_loop first last_char seen rest = Inl invalid_name"
proof -
  from assms obtain u v where "rest = u @ ''--'' @ v" unfolding has_double_dash_iff by blast
  then show ?thesis by (simp add: valid_name_loop_double_dash del: append.simps)
qed

lemma or_0x20_not_dash:
  "65 \<le> (of_char c :: nat) \<Longrightarrow> (of_char c :: nat) \<le> 90 \<Longrightarrow> or_0x20 c \<noteq> CHR ''-''"
  using or_0x20_upper [of c] by auto

lemma valid_name_loop_accepts:
  "\<forall>c \<in> set rest. allowed_char c \<Longrightarrow> \<not> has_double_dash rest \<Longrightarrow>
   (rest = [] \<longrightarrow> last_char \<noteq> CHR ''-'') \<Longrightarrow>
   (rest \<noteq> [] \<longrightarrow> last rest \<noteq> CHR ''-''
      \<and> (last_char = CHR ''-'' \<longrightarrow> hd rest \<noteq> CHR ''-'')
      \<and> (first \<longrightarrow> hd rest \<noteq> CHR ''-'' \<and> \<not> is_digit (hd rest))) \<Longrightarrow>
   \<exists>t. valid_name_loop first last_char seen rest = Inr t"
proof (induction rest arbitrary: first last_char seen)
  case Nil
  then show ?case by simp
next
  case (Cons c rest)
  have nd: "\<not> has_double_dash rest" using Cons.prems(2) by (cases rest) auto
  have al: "\<forall>c \<in> set rest. allowed_char c" using Cons.prems(1) by simp
  have lr: "rest \<noteq> [] \<longrightarrow> last rest \<noteq> CHR ''-''"
    using Cons.prems(4) by (auto split: if_splits)
  show ?case
  proof (cases "c = CHR ''-''")
    case True
    with Cons.prems(4) have f: "\<not> first" "last_char \<noteq> CHR ''-''" "rest \<noteq> []" by auto
    have "hd rest \<noteq> CHR ''-''" using Cons.prems(2) True f(3) by (cases rest) auto
    with lr f(3) have "\<exists>t. valid_name_loop False c (seen @ [c]) rest = Inr t"
      by (intro Cons.IH [OF al nd]) simp_all
    with True f show ?thesis by simp
  next
    case False
    have step: "\<exists>t. valid_name_loop False l (seen @ [l]) rest = Inr t" if "l \<noteq> CHR ''-''" for l
      using that lr by (intro Cons.IH [OF al nd]) simp_all
    from Cons.prems(1) have a: "allowed_char c" by simp
    show ?thesis
    proof (cases "is_digit c")
      case True
      with Cons.prems(4) have "\<not> first" by simp
      with True False step [OF False] show ?thesis by simp
    next
      case nd: False
      show ?thesis
      proof (cases "schar (CHR ''A'') \<le> schar c \<and> schar c \<le> schar (CHR ''Z'')")
        case True
        then have "or_0x20 c \<noteq> CHR ''-''"
          by (intro or_0x20_not_dash) (simp_all only: upper_iff)
        from step [OF this] True False nd show ?thesis by simp
      next
        case nu: False
        with a False nd have "\<not> (schar c < schar (CHR ''a'') \<or> schar (CHR ''z'') < schar c)"
          unfolding upper_iff not_lower_iff is_digit_iff by (auto simp: allowed_char_def)
        with step [OF False] False nd nu show ?thesis by auto
      qed
    qed
  qed
qed


text \<open>
  C7 (name validator).  For every string the validator either throws \<open>invalid_name\<close>
  (it throws nothing else) or accepts; on acceptance the string it leaves is the input with
  its upper-case letters folded to lower case, and it matches
  \<open>^[a-z][a-z0-9]*(-[a-z0-9]+)*$\<close> as a whole.  The empty string, a leading dash, a
  leading digit, two dashes in a row, a trailing dash and any byte outside \<open>a-z\<close>,
  \<open>A-Z\<close>, \<open>0-9\<close>, \<open>-\<close> are rejected with \<open>invalid_name\<close>.  Every other string
  is accepted.
\<close>

theorem C7_valid_name:
  "(\<forall>e. valid_name s = Inl e \<longrightarrow> e = invalid_name)
   \<and> (\<forall>t. valid_name s = Inr t \<longrightarrow> t = map fold_lower s \<and> t \<in> lang name_re)
   \<and> (s = [] \<or> hd s = CHR ''-'' \<or> is_digit (hd s) \<or> has_double_dash s
        \<or> last s = CHR ''-'' \<or> (\<exists>c \<in> set s. \<not> allowed_char c)
      \<longrightarrow> valid_name s = Inl invalid_name)
   \<and> (s \<noteq> [] \<and> hd s \<noteq> CHR ''-'' \<and> \<not> is_digit (hd s) \<and> \<not> has_double_dash s
        \<and> last s \<noteq> CHR ''-'' \<and> (\<forall>c \<in> set s. allowed_char c)
      \<longrightarrow> valid_name s = Inr (map fold_lower s))"
proof (intro conjI allI impI)
  fix e assume "valid_name s = Inl e"
  then show "e = invalid_name"
    by (auto simp: valid_name_def split: if_splits dest: valid_name_loop_error)
next
  fix t assume t: "valid_name s = Inr t"
  then have s: "s \<noteq> []" and l: "valid_name_loop True (CHR 0x00) [] s = Inr t"
    by (auto simp: valid_name_def split: if_splits)
  show "t = map fold_lower s" using valid_name_loop_shape [OF l] by simp
  show "t \<in> lang name_re"
    using valid_name_loop_grammar [OF _ _ l] s by (simp add: loop_inv_def)
next
  assume "s = [] \<or> hd s = CHR ''-'' \<or> is_digit (hd s) \<or> has_double_dash s
        \<or> last s = CHR ''-'' \<or> (\<exists>c \<in> set s. \<not> allowed_char c)"
  then consider "s = []" | "s \<noteq> []" "hd s = CHR ''-''" | "s \<noteq> []" "is_digit (hd s)"
    | "has_double_dash s" | "s \<noteq> []" "last s = CHR ''-''" | "\<exists>c \<in> set s. \<not> allowed_char c"
    by blast
  then show "valid_name s = Inl invalid_name"
  proof cases
    case 1
    then show ?thesis by (simp add: valid_name_def)
  next
    case 2
    then show ?thesis by (cases s) (simp_all add: valid_name_def)
  next
    case 3
    then show ?thesis by (cases s) (simp_all add: valid_name_def)
  next
    case 4
    then have "s \<noteq> []" by auto
    with 4 show ?thesis by (simp add: valid_name_def valid_name_loop_has_double_dash)
  next
    case 5
    then show ?thesis by (simp add: valid_name_def valid_name_loop_trailing_dash)
  next
    case 6
    then show ?thesis by (simp add: valid_name_def valid_name_loop_bad_char)
  qed
next
  assume a: "s \<noteq> [] \<and> hd s \<noteq> CHR ''-'' \<and> \<not> is_digit (hd s) \<and> \<not> has_double_dash s
        \<and> last s \<noteq> CHR ''-'' \<and> (\<forall>c \<in> set s. allowed_char c)"
  then have "\<exists>t. valid_name_loop True (CHR 0x00) [] s = Inr t"
    by (intro valid_name_loop_accepts) simp_all
  then obtain t where t: "valid_name_loop True (CHR 0x00) [] s = Inr t" ..
  from valid_name_loop_shape [OF t] t a
  show "valid_name s = Inr (map fold_lower s)" by (simp add: valid_name_def)
qed


theorem C7_valid_name_witness:
  "valid_name ''Core-Plugins'' = Inr ''core-plugins''
   \<and> ''core-plugins'' \<in> lang name_re
   \<and> valid_name ''abc-'' = Inl invalid_name
   \<and> valid_name ''ab_c'' = Inl invalid_name"
proof -
  have v: "valid_name ''Core-Plugins'' = Inr ''core-plugins''"
    by (simp add: valid_name_def schar_def is_digit_def)
  have g: "''core-plugins'' \<in> lang name_re"
    using C7_valid_name [of "''Core-Plugins''"] v by blast
  have d: "valid_name ''abc-'' = Inl invalid_name"
    using C7_valid_name [of "''abc-''"] by simp
  have u: "valid_name ''ab_c'' = Inl invalid_name"
    using C7_valid_name [of "''ab_c''"] by (simp add: allowed_char_def)
  from v g d u show ?thesis by simp
qed

section \<open>The constructor from a record, step by step\<close>

lemma and_then_Inr [simp]: "and_then (Inr x) k = k x"
  by (simp add: and_then_def)

lemma and_then_Inl [simp]: "and_then (Inl e) k = Inl e"
  by (simp add: and_then_def)

lemma and_then_eq_Inr: "and_then r k = Inr y \<longleftrightarrow> (\<exists>x. r = Inr x \<and> k x = Inr y)"
  by (cases r) simp_all

lemma load_fields_steps:
  "load_fields file this =
     (if \<not> has_parameter file ''unit'' \<or> \<not> has_parameter file ''section''
         \<or> \<not> has_parameter file ''name'' \<or> \<not> has_parameter file ''message''
      then Inl invalid_parameter
      else
        and_then (opt_long file ''line'' (\<lambda>n t. t\<lparr>f_line := word_of_int n\<rparr>)
                   (opt_text file ''function'' (\<lambda>v t. t\<lparr>f_function := v\<rparr>)
                     (opt_text file ''source_file'' (\<lambda>v t. t\<lparr>f_source_file := v\<rparr>)
                       (this\<lparr>f_unit := get_parameter file ''unit'',
                              f_section := get_parameter file ''section'',
                              f_name := get_parameter file ''name''\<rparr>)))) (\<lambda>this.
        and_then (opt_long file ''priority'' (\<lambda>n t. t\<lparr>f_priority := word_of_int n\<rparr>)
                   (this\<lparr>f_message := get_parameter file ''message''\<rparr>)) (\<lambda>this.
        and_then (opt_long file ''date'' (\<lambda>n t. t\<lparr>f_date := word_of_int n\<rparr>)
                   (opt_text file ''manual_down'' (\<lambda>v t. t\<lparr>f_manual_down := (v = ''yes'')\<rparr>) this)) (\<lambda>this.
        and_then (opt_long file ''modified'' (\<lambda>n t. t\<lparr>f_modified := word_of_int n\<rparr>) this) (\<lambda>this.
        and_then (opt_long file ''count'' (\<lambda>n t. t\<lparr>f_count := word_of_int n\<rparr>)
                   (opt_text file ''hostname'' (\<lambda>v t. t\<lparr>f_hostname := v\<rparr>)
                     (opt_text file ''tags''
                        (\<lambda>v t. t\<lparr>f_tags := fold set_insert
                                   (tokenize_string v '','' True [CHR '' '', CHR 0x0A, CHR 0x0D, CHR 0x09])
                                   (f_tags t)\<rparr>) this))) (\<lambda>this.
        Inr (opt_text file ''version'' (\<lambda>v t. t\<lparr>f_version := v\<rparr>) this)))))))"
  by (simp only: load_fields_def opt_long_def opt_text_def Let_def and_then_Inr)


lemma opt_text_priority:
  "(\<And>v y. f_priority (assign v y) = f_priority y) \<Longrightarrow>
   f_priority (opt_text file name assign x) = f_priority x"
  by (simp add: opt_text_def)

lemma opt_long_priority:
  "opt_long file name assign x = Inr t \<Longrightarrow> (\<And>n y. f_priority (assign n y) = f_priority y) \<Longrightarrow>
   f_priority t = f_priority x"
  by (auto simp: opt_long_def and_then_eq_Inr split: if_splits)

lemma opt_long_priority_set:
  "opt_long file ''priority'' (\<lambda>n t. t\<lparr>f_priority := word_of_int n\<rparr>) x = Inr t \<Longrightarrow>
   (if has_parameter file ''priority''
    then \<exists>n. stol (get_parameter file ''priority'') = Inr n \<and> f_priority t = word_of_int n
    else f_priority t = f_priority x)"
  by (auto simp: opt_long_def and_then_eq_Inr split: if_splits)

lemma load_fields_priority:
  assumes "load_fields file this0 = Inr this"
  shows "if has_parameter file ''priority''
         then \<exists>n. stol (get_parameter file ''priority'') = Inr n \<and> f_priority this = word_of_int n
         else f_priority this = f_priority this0"
proof -
  from assms obtain t1 t2 t3 t4 t5 where
    s1: "opt_long file ''line'' (\<lambda>n t. t\<lparr>f_line := word_of_int n\<rparr>)
           (opt_text file ''function'' (\<lambda>v t. t\<lparr>f_function := v\<rparr>)
             (opt_text file ''source_file'' (\<lambda>v t. t\<lparr>f_source_file := v\<rparr>)
               (this0\<lparr>f_unit := get_parameter file ''unit'',
                       f_section := get_parameter file ''section'',
                       f_name := get_parameter file ''name''\<rparr>))) = Inr t1"
    and s2: "opt_long file ''priority'' (\<lambda>n t. t\<lparr>f_priority := word_of_int n\<rparr>)
           (t1\<lparr>f_message := get_parameter file ''message''\<rparr>) = Inr t2"
    and s3: "opt_long file ''date'' (\<lambda>n t. t\<lparr>f_date := word_of_int n\<rparr>)
           (opt_text file ''manual_down'' (\<lambda>v t. t\<lparr>f_manual_down := (v = ''yes'')\<rparr>) t2) = Inr t3"
    and s4: "opt_long file ''modified'' (\<lambda>n t. t\<lparr>f_modified := word_of_int n\<rparr>) t3 = Inr t4"
    and s5: "opt_long file ''count'' (\<lambda>n t. t\<lparr>f_count := word_of_int n\<rparr>)
           (opt_text file ''hostname'' (\<lambda>v t. t\<lparr>f_hostname := v\<rparr>)
             (opt_text file ''tags''
                (\<lambda>v t. t\<lparr>f_tags := fold set_insert
                           (tokenize_string v '','' True [CHR '' '', CHR 0x0A, CHR 0x0D, CHR 0x09])
                           (f_tags t)\<rparr>) t4)) = Inr t5"
    and s6: "this = opt_text file ''version'' (\<lambda>v t. t\<lparr>f_version := v\<rparr>) t5"
    unfolding load_fields_steps by (auto split: if_splits simp: and_then_eq_Inr)
  have "f_priority t1 = f_priority this0"
    using opt_long_priority [OF s1] by (simp add: opt_text_priority)
  moreover have "f_priority this = f_priority t2"
    using opt_long_priority [OF s3] opt_long_priority [OF s4] opt_long_priority [OF s5] s6
    by (simp add: opt_text_priority)
  ultimately show ?thesis using opt_long_priority_set [OF s2] by (simp split: if_splits)
qed

lemma set_priority_clamps: "priority_in_range (set_priority p this)"
  by (simp add: set_priority_def priority_in_range_def word_sless_alt)

lemma set_priority_value:
  "sint (f_priority (set_priority p this)) = (if sint p < 0 then 0 else if 100 < sint p then 100 else sint p)"
  by (simp add: set_priority_def word_sless_alt)

lemma call_setter_priority:
  "priority_in_range this \<Longrightarrow> priority_in_range (call_setter c this)"
  by (cases c)
     (simp_all add: set_priority_clamps, simp_all add: priority_in_range_def set_state_def set_source_file_def
        set_function_def set_line_def set_message_def set_manual_down_def add_tag_def)

lemma fold_setters_priority:
  "priority_in_range this \<Longrightarrow> priority_in_range (fold call_setter calls this)"
  by (induction calls arbitrary: this) (simp_all add: call_setter_priority)

lemma flag_new_priority: "flag_new unit section name = Inr this \<Longrightarrow> f_priority this = 5"
  by (auto simp: flag_new_def and_then_eq_Inr default_flag_def)


section \<open>Numbers written and read back\<close>

lemma sint_long_of_int:
  "- (2 ^ 63) \<le> x \<Longrightarrow> x < 2 ^ 63 \<Longrightarrow> sint (word_of_int x :: 64 word) = x"
  by (simp add: sint_sbintrunc' signed_take_bit_int_eq_self)

lemma long_add_in_range:
  "- (2 ^ 63) \<le> a + b \<Longrightarrow> a + b < 2 ^ 63 \<Longrightarrow> long_add a b = a + b"
  using sint_long_of_int [of "a + b"] by (simp add: long_add_def)

lemma digit_char_is_digit: "d < 10 \<Longrightarrow> is_digit (digit_char d)"
  by (simp add: is_digit_iff digit_char_def)

lemma digit_val_digit_char: "d < 10 \<Longrightarrow> digit_val (digit_char d) = d"
  by (simp add: digit_val_def digit_char_def)

lemma digits_val_append: "digits_val acc (xs @ ys) = digits_val (digits_val acc xs) ys"
  by (induction xs arbitrary: acc) simp_all

declare dec.simps [simp del]

lemma dec_digits: "c \<in> set (dec n) \<Longrightarrow> is_digit c"
proof (induction n rule: dec.induct)
  case (1 n)
  then show ?case
    by (subst (asm) dec.simps) (auto simp: digit_char_is_digit split: if_splits)
qed

lemma dec_nonempty: "dec n \<noteq> []"
  by (subst dec.simps) simp

lemma digits_val_dec: "digits_val 0 (dec n) = n"
proof (induction n rule: dec.induct)
  case (1 n)
  show ?case
  proof (cases "n < 10")
    case True
    then show ?thesis by (subst dec.simps) (simp add: digit_val_digit_char)
  next
    case False
    with 1 show ?thesis
      by (subst dec.simps) (simp add: digits_val_append digit_val_digit_char)
  qed
qed

lemma digit_not_space: "is_digit c \<Longrightarrow> \<not> isspace c \<and> c \<noteq> CHR ''-'' \<and> c \<noteq> CHR ''+''"
  by (auto simp: is_digit_def isspace_def)

lemma takeWhile_dec: "takeWhile is_digit (dec n) = dec n"
  by (simp add: dec_digits)

lemma dec_head: "\<exists>c cs. dec n = c # cs \<and> is_digit c"
  using dec_nonempty [of n] dec_digits [of _ n] by (cases "dec n") auto

lemma stol_to_string:
  assumes "- (2 ^ 63) \<le> i" "i < 2 ^ 63"
  shows "stol (to_string i) = Inr i"
proof (cases "i < 0")
  case True
  obtain c cs where d: "dec (nat (- i)) = c # cs" "is_digit c" using dec_head by blast
  have t: "takeWhile is_digit (c # cs) = c # cs" using takeWhile_dec [of "nat (- i)"] d(1) by simp
  have v: "digits_val 0 (c # cs) = nat (- i)" using digits_val_dec [of "nat (- i)"] d(1) by simp
  show ?thesis
    using True assms
    by (simp add: stol_def to_string_def d(1) isspace_def Let_def t v del: takeWhile.simps digits_val.simps)
next
  case False
  obtain c cs where d: "dec (nat i) = c # cs" "is_digit c" using dec_head by blast
  have t: "takeWhile is_digit (c # cs) = c # cs" using takeWhile_dec [of "nat i"] d(1) by simp
  have v: "digits_val 0 (c # cs) = nat i" using digits_val_dec [of "nat i"] d(1) by simp
  show ?thesis
    using False assms digit_not_space [OF d(2)]
    by (simp add: stol_def to_string_def d(1) Let_def t v del: takeWhile.simps digits_val.simps)
qed

lemma stol_range: "stol s = Inr n \<Longrightarrow> - (2 ^ 63) \<le> n \<and> n < 2 ^ 63"
  by (auto simp: stol_def Let_def split: if_splits)

lemma stol_to_string_int: "stol (to_string (sint (x :: 32 word))) = Inr (sint x)"
proof -
  have "- (2 ^ 31) \<le> sint x" "sint x < 2 ^ 31"
    using sint_ge [of x] sint_lt [of x] by simp_all
  then show ?thesis by (intro stol_to_string) simp_all
qed

lemma stol_to_string_long: "stol (to_string (sint (x :: 64 word))) = Inr (sint x)"
  using sint_ge [of x] sint_lt [of x] by (intro stol_to_string) simp_all


section \<open>What a save does\<close>

lemma flag_load_empty: "flag_load [] w = Some (Inl invalid_parameter, w)"
  by (simp add: flag_load_def)

lemma flag_load_nonempty:
  "filename \<noteq> [] \<Longrightarrow>
   flag_load filename w =
     Some (load_fields (get_conf_file w filename) (default_flag\<lparr>f_filename := filename\<rparr>), w)"
  by (simp add: flag_load_def get_filename_cached)

lemma save_unresolved: "get_filename this w = None \<Longrightarrow> save this w = None"
  by (simp add: save_def)

lemma save_frame:
  assumes "save this w = Some (r, this', w')"
  shows "this' = this\<lparr>f_filename := f_filename this'\<rparr>"
proof -
  from assms obtain filename this1 w1 where g: "get_filename this w = Some (filename, this1, w1)"
    by (cases "get_filename this w") (auto simp: save_def)
  have "this' = this1"
    using assms unfolding save_def g
    by (simp only: Option.bind.simps prod.case Let_def)
       (auto split: if_splits sum.splits prod.splits)
  with get_filename_Some [OF g] show ?thesis by simp
qed


lemma save_static:
  assumes "save this w = Some (r, this', w')"
  shows "g_path_to_flag_files w' = g_path_to_flag_files w"
proof -
  from assms obtain filename this1 w1 where g: "get_filename this w = Some (filename, this1, w1)"
    by (cases "get_filename this w") (auto simp: save_def)
  from get_filename_Some [OF g] have w1: "w1 = w" by simp
  show ?thesis
    using assms unfolding save_def g w1
    by (simp only: Option.bind.simps prod.case Let_def)
       (auto split: if_splits sum.splits prod.splits option.splits
          simp: save_configuration_def unlink_def)
qed

lemma unlink_again:
  "unlink filename w = (err, w') \<Longrightarrow>
   \<exists>err'. unlink filename w' = (err', w')
     \<and> ((err' = None \<or> err' = Some ENOENT) = (err = None \<or> err = Some ENOENT))"
  by (auto simp: unlink_def split: option.splits if_splits)

lemma unlink_allowed:
  "refused w filename = None \<Longrightarrow>
   (fst (unlink filename w) = None \<or> fst (unlink filename w) = Some ENOENT)
   \<and> files (snd (unlink filename w)) filename = None"
  by (simp add: unlink_def)

lemma unlink_refused:
  "refused w filename = Some e \<Longrightarrow> unlink filename w = (Some e, w)"
  by (simp add: unlink_def)

lemma save_down:
  assumes g: "get_filename this w = Some (filename, this1, w1)"
    and d: "f_state this = STATE_DOWN"
  shows "save this w =
           Some (Inr (fst (unlink filename w) = None \<or> fst (unlink filename w) = Some ENOENT),
                 this1, snd (unlink filename w))"
proof -
  from get_filename_Some [OF g] have f: "filename \<noteq> []" "w1 = w" "f_state this1 = STATE_DOWN"
    using d by simp_all
  show ?thesis
    unfolding save_def g using f by (cases "unlink filename w") auto
qed

lemma has_date_exists:
  "(conf_exists w filename \<and> has_parameter (get_conf_file w filename) name)
     = has_parameter (get_conf_file w filename) name"
  by (auto simp: conf_exists_def get_conf_file_def has_parameter_def split: option.splits)

lemma written_by_save:
  assumes "has_parameter old ''count'' \<longrightarrow> stol (get_parameter old ''count'') = Inr n"
  shows "(let file = old;
              has_date = has_parameter file ''date'';
              has_count = has_parameter file ''count'';
              now = to_string (sint (time_now w));
              file = set_parameter ''unit'' (f_unit this) file;
              file = set_parameter ''section'' (f_section this) file;
              file = set_parameter ''name'' (f_name this) file;
              file = set_parameter ''source_file'' (f_source_file this) file;
              file = set_parameter ''function'' (f_function this) file;
              file = set_parameter ''line'' (to_string (sint (f_line this))) file;
              file = set_parameter ''message'' (f_message this) file;
              file = set_parameter ''priority'' (to_string (sint (f_priority this))) file;
              file = set_parameter ''manual_down'' (if f_manual_down this then ''yes'' else ''no'') file;
              file = (if \<not> has_date then set_parameter ''date'' now file else file);
              file = set_parameter ''modified'' now file;
              file = set_parameter ''tags'' (join_strings (f_tags this) '','') file;
              file = set_parameter ''hostname'' (gethostname w) file;
              file = set_parameter ''version'' (COMMUNICATORD_VERSION_STRING w) file
          in (if has_count
              then and_then (stol (get_parameter file ''count''))
                     (\<lambda>n. Inr (set_parameter ''count'' (to_string (long_add n 1)) file))
              else Inr (set_parameter ''count'' ''1'' file)))
         = Inr (written this w old)"
proof (cases "has_parameter old ''count''")
  case True
  with assms have n: "old ''count'' = Some v \<Longrightarrow> stol v = Inr n" for v
    by (simp add: get_parameter_def)
  from True obtain v where v: "old ''count'' = Some v" by (auto simp: has_parameter_def)
  show ?thesis
    using True v n [OF v]
    by (cases "old ''date''")
       (auto simp: Let_def set_parameter_def written_def get_parameter_def has_parameter_def
          intro!: ext)
next
  case False
  then show ?thesis
    by (cases "old ''date''")
       (auto simp: Let_def set_parameter_def written_def get_parameter_def has_parameter_def
          intro!: ext)
qed


lemma written_filename: "written (this\<lparr>f_filename := x\<rparr>) w old = written this w old"
  by (simp add: written_def)

lemma save_up:
  assumes g: "get_filename this w = Some (filename, this1, w1)"
    and u: "f_state this = STATE_UP"
    and c: "has_parameter (get_conf_file w filename) ''count'' \<longrightarrow>
            stol (get_parameter (get_conf_file w filename) ''count'') = Inr n"
  shows "save this w =
           Some (Inr (writable w filename), this1,
                 if writable w filename
                 then w\<lparr>files :=
                        (case files w filename of
                           None \<Rightarrow> files w
                         | Some previous \<Rightarrow> (files w)(filename @ ''.bak'' \<mapsto> previous))
                        (filename \<mapsto> written this w (get_conf_file w filename))\<rparr>
                 else w)"
proof -
  from get_filename_Some [OF g] have f: "filename \<noteq> []" "w1 = w" "f_state this1 = STATE_UP"
    and t: "this1 = this\<lparr>f_filename := filename\<rparr>"
    using u by simp_all
  note wr = written_by_save [of "get_conf_file w filename" n w this1, OF c, unfolded Let_def]
  have "save this w =
          (case save_configuration filename ''.bak'' (written this1 w (get_conf_file w filename)) w of
             (result, w') \<Rightarrow> Some (Inr result, this1, w'))"
    unfolding save_def g
    by (simp only: Option.bind.simps prod.case f if_False if_True Let_def has_date_exists wr
          sum.case refl)
  then show ?thesis
    by (simp add: save_configuration_def t written_filename)
qed


lemma thrown_by_save:
  assumes "has_parameter old ''count''" and "stol (get_parameter old ''count'') = Inl e"
  shows "(let file = old;
              has_date = has_parameter file ''date'';
              has_count = has_parameter file ''count'';
              now = to_string (sint (time_now w));
              file = set_parameter ''unit'' (f_unit this) file;
              file = set_parameter ''section'' (f_section this) file;
              file = set_parameter ''name'' (f_name this) file;
              file = set_parameter ''source_file'' (f_source_file this) file;
              file = set_parameter ''function'' (f_function this) file;
              file = set_parameter ''line'' (to_string (sint (f_line this))) file;
              file = set_parameter ''message'' (f_message this) file;
              file = set_parameter ''priority'' (to_string (sint (f_priority this))) file;
              file = set_parameter ''manual_down'' (if f_manual_down this then ''yes'' else ''no'') file;
              file = (if \<not> has_date then set_parameter ''date'' now file else file);
              file = set_parameter ''modified'' now file;
              file = set_parameter ''tags'' (join_strings (f_tags this) '','') file;
              file = set_parameter ''hostname'' (gethostname w) file;
              file = set_parameter ''version'' (COMMUNICATORD_VERSION_STRING w) file
          in (if has_count
              then and_then (stol (get_parameter file ''count''))
                     (\<lambda>n. Inr (set_parameter ''count'' (to_string (long_add n 1)) file))
              else Inr (set_parameter ''count'' ''1'' file)))
         = (Inl e :: exn + conf_file)"
proof -
  from assms(1) obtain v where v: "old ''count'' = Some v" by (auto simp: has_parameter_def)
  with assms(2) have "stol v = Inl e" by (simp add: get_parameter_def)
  with v assms(1) show ?thesis
    by (cases "old ''date''")
       (auto simp: Let_def set_parameter_def get_parameter_def has_parameter_def)
qed

lemma save_up_throws:
  assumes g: "get_filename this w = Some (filename, this1, w1)"
    and u: "f_state this = STATE_UP"
    and h: "has_parameter (get_conf_file w filename) ''count''"
    and e: "stol (get_parameter (get_conf_file w filename) ''count'') = Inl e"
  shows "save this w = Some (Inl e, this1, w)"
proof -
  from get_filename_Some [OF g] have f: "filename \<noteq> []" "w1 = w" "f_state this1 = STATE_UP"
    using u by simp_all
  note th = thrown_by_save [of "get_conf_file w filename" e w this1, OF h e, unfolded Let_def]
  show ?thesis
    unfolding save_def g
    by (simp only: Option.bind.simps prod.case f if_False if_True Let_def has_date_exists th
          sum.case refl)
qed

lemmas text_eval = to_string_def dec.simps digit_char_def char_of_def bit_Suc_0_iff
  stol_def isspace_def is_digit_def digit_val_def Let_def long_add_def

lemma written_fields:
  "written this w old ''unit'' = Some (f_unit this)"
  "written this w old ''section'' = Some (f_section this)"
  "written this w old ''name'' = Some (f_name this)"
  "written this w old ''message'' = Some (f_message this)"
  "written this w old ''priority'' = Some (to_string (sint (f_priority this)))"
  "written this w old ''manual_down'' = Some (if f_manual_down this then ''yes'' else ''no'')"
  "written this w old ''tags'' = Some (join_strings (f_tags this) '','')"
  "written this w old ''hostname'' = Some (gethostname w)"
  "written this w old ''version'' = Some (COMMUNICATORD_VERSION_STRING w)"
  "written this w old ''modified'' = Some (to_string (sint (time_now w)))"
  "written this w old ''date'' =
     Some (if has_parameter old ''date'' then get_parameter old ''date''
           else to_string (sint (time_now w)))"
  "written this w old ''count'' =
     Some (if has_parameter old ''count''
           then (case stol (get_parameter old ''count'') of
                   Inr n \<Rightarrow> to_string (long_add n 1) | Inl e \<Rightarrow> [])
           else ''1'')"
  "written this w old ''line'' = Some (to_string (sint (f_line this)))"
  "written this w old ''source_file'' = Some (f_source_file this)"
  "written this w old ''function'' = Some (f_function this)"
  by (simp_all add: written_def Let_def)

lemma get_conf_file_written:
  "get_conf_file (w\<lparr>files := fs(filename \<mapsto> rec)\<rparr>) filename = rec"
  by (simp add: get_conf_file_def)

lemma clamav_path_nonempty: "clamav_path \<noteq> []"
  by (simp add: clamav_path_def)

lemma flagged_world_record: "get_conf_file flagged_world clamav_path = clamav_record"
  by (simp add: flagged_world_def test_world_def get_conf_file_def)

lemma clamav_record_loads:
  "load_fields clamav_record (default_flag\<lparr>f_filename := fn\<rparr>) = Inr (loaded_clamav\<lparr>f_filename := fn\<rparr>)"
  unfolding load_fields_steps
  by (simp add: opt_long_def opt_text_def clamav_record_def has_parameter_def get_parameter_def
        loaded_clamav_def default_flag_def stol_def isspace_def is_digit_def digit_val_def Let_def)

lemma flagged_world_loads:
  "flag_load clamav_path flagged_world = Some (Inr loaded_clamav, flagged_world)"
  by (simp add: flag_load_nonempty [OF clamav_path_nonempty] flagged_world_record
        clamav_record_loads loaded_clamav_def)

lemma cleared_world_facts:
  "files cleared_world clamav_path = None"
  "get_conf_file cleared_world clamav_path = Map.empty"
  "writable cleared_world filename"
  "refused cleared_world filename = None"
  "to_string (sint (time_now cleared_world)) = ''1700000000''"
  by (simp_all add: cleared_world_def flagged_world_def test_world_def get_conf_file_def
        text_eval)

lemma flagged_world_facts:
  "files flagged_world clamav_path = Some clamav_record"
  "writable flagged_world filename"
  "refused flagged_world filename = None"
  "g_path_to_flag_files flagged_world = []"
  "to_string (sint (time_now flagged_world)) = ''1700000000''"
  by (simp_all add: flagged_world_def test_world_def text_eval)

lemma loaded_clamav_facts:
  "f_filename loaded_clamav = clamav_path"
  "f_state loaded_clamav = STATE_UP"
  "f_count loaded_clamav = 1"
  by (simp_all add: loaded_clamav_def default_flag_def)

lemma built_flag_facts:
  "f_filename built_flag = []"
  "f_state built_flag = STATE_UP"
  "flag_new ''core-plugins'' ''attachment'' ''clamav-missing'' = Inr clamav_flag"
  by (simp_all add: built_flag_def set_message_def clamav_flag_def default_flag_def
        flag_new_def valid_name_def schar_def is_digit_def)

lemma save_up_merges:
  assumes g: "get_filename this w = Some (filename, this1, w1)"
    and u: "f_state this = STATE_UP"
    and wr: "writable w filename"
    and c: "has_parameter (get_conf_file w filename) ''count'' \<longrightarrow>
            stol (get_parameter (get_conf_file w filename) ''count'') = Inr n \<and> n + 1 < 2 ^ 63"
  shows "\<exists>w'. save this w = Some (Inr True, this1, w')
          \<and> get_conf_file w' filename ''date'' =
              Some (if has_parameter (get_conf_file w filename) ''date''
                    then get_parameter (get_conf_file w filename) ''date''
                    else to_string (sint (time_now w)))
          \<and> get_conf_file w' filename ''modified'' = Some (to_string (sint (time_now w)))
          \<and> get_conf_file w' filename ''count'' =
              Some (if has_parameter (get_conf_file w filename) ''count''
                    then to_string (n + 1) else ''1'')
          \<and> (files w filename = None \<longrightarrow>
               (\<exists>w''. save this1 (w'\<lparr>time_now := later\<rparr>) = Some (Inr True, this1, w'')
                  \<and> get_conf_file w'' filename ''date'' = Some (to_string (sint (time_now w)))
                  \<and> get_conf_file w'' filename ''modified'' = Some (to_string (sint later))
                  \<and> get_conf_file w'' filename ''count'' = Some ''2''))"
proof -
  define old where "old = get_conf_file w filename"
  define w' where "w' = w\<lparr>files :=
                        (case files w filename of
                           None \<Rightarrow> files w
                         | Some previous \<Rightarrow> (files w)(filename @ ''.bak'' \<mapsto> previous))
                        (filename \<mapsto> written this w old)\<rparr>"
  from get_filename_Some [OF g] have f: "filename \<noteq> []" "this1 = this\<lparr>f_filename := filename\<rparr>"
    by simp_all
  have c': "has_parameter old ''count'' \<longrightarrow> stol (get_parameter old ''count'') = Inr n"
    using c by (simp add: old_def)
  have s1: "save this w = Some (Inr True, this1, w')"
    using save_up [OF g u c' [unfolded old_def]] wr by (simp add: w'_def old_def)
  have new: "get_conf_file w' filename = written this w old"
    by (simp add: w'_def get_conf_file_written)
  have cnt: "written this w old ''count'' =
               Some (if has_parameter old ''count'' then to_string (n + 1) else ''1'')"
  proof (cases "has_parameter old ''count''")
    case True
    with c have n: "stol (get_parameter old ''count'') = Inr n" "n + 1 < 2 ^ 63"
      by (simp_all add: old_def)
    from stol_range [OF n(1)] n(2) have "long_add n 1 = n + 1"
      by (intro long_add_in_range) simp_all
    with True n(1) show ?thesis by (simp add: written_fields)
  next
    case False
    then show ?thesis by (simp add: written_fields)
  qed
  have twice: "\<exists>w''. save this1 (w'\<lparr>time_now := later\<rparr>) = Some (Inr True, this1, w'')
                  \<and> get_conf_file w'' filename ''date'' = Some (to_string (sint (time_now w)))
                  \<and> get_conf_file w'' filename ''modified'' = Some (to_string (sint later))
                  \<and> get_conf_file w'' filename ''count'' = Some ''2''"
    if absent: "files w filename = None"
  proof -
    let ?w2 = "w'\<lparr>time_now := later\<rparr>"
    have e: "old = Map.empty" using absent by (simp add: old_def get_conf_file_def)
    have g2: "get_filename this1 ?w2 = Some (filename, this1, ?w2)"
      using get_filename_cached [of this1 ?w2] f by simp
    have u2: "f_state this1 = STATE_UP" using u f(2) by simp
    have o2: "get_conf_file ?w2 filename = written this w old"
      by (simp add: w'_def get_conf_file_def)
    have one: "stol ''1'' = Inr 1" by (simp add: text_eval)
    have two: "to_string (long_add 1 1) = ''2''" by (simp add: text_eval)
    have c2: "has_parameter (get_conf_file ?w2 filename) ''count'' \<longrightarrow>
              stol (get_parameter (get_conf_file ?w2 filename) ''count'') = Inr 1"
      by (simp add: o2 e written_fields get_parameter_def has_parameter_def one)
    have w2: "writable ?w2 filename" using wr by (simp add: w'_def)
    from save_up [OF g2 u2 c2] w2 obtain w'' where
      s2: "save this1 ?w2 = Some (Inr True, this1, w'')"
      and r2: "get_conf_file w'' filename = written this1 ?w2 (written this w old)"
      by (simp add: o2 get_conf_file_written)
    have "written this1 ?w2 (written this w old) ''date'' = Some (to_string (sint (time_now w)))"
      "written this1 ?w2 (written this w old) ''modified'' = Some (to_string (sint later))"
      "written this1 ?w2 (written this w old) ''count'' = Some ''2''"
      by (simp_all add: written_fields e has_parameter_def get_parameter_def one two)
    with s2 r2 show ?thesis by simp
  qed
  show ?thesis
    using s1 new cnt twice by (auto simp: written_fields old_def [symmetric])
qed

text \<open>
  C6 (merge on raise).  A flag with state UP is saved.

  \<^item> A flag built from its triple has no file name yet.  In a process the static is empty,
    and \<open>save()\<close> does not return: the resolution of the directory calls itself (the
    defect of C3).  Nothing is merged, nothing is written.

  \<^item> A flag that has its file name, as a flag built from its file has.  If the path may be
    written and the count of the record on disk, if any, reads as a number \<open>n\<close> below the
    largest \<open>long\<close>, then \<open>save()\<close> returns true and the record it leaves has: as date the
    date of the record that was there, or now when there was none; as modified, now; as
    count, \<open>n + 1\<close>, or 1 when the record had no count.  Saving the flag a second time, at
    a later time, keeps the date of the first save, sets modified to the later time and
    takes the count from 1 to 2.

  \<^item> For such a flag, if the path may not be written, \<open>save()\<close> returns false and changes
    nothing; if the count of the record on disk does not read as a number, \<open>save()\<close>
    throws what \<open>std::stol\<close> throws and writes nothing.
\<close>

theorem C6_save_up:
  assumes u: "f_state obj = STATE_UP"
  shows "(f_filename obj = [] \<and> g_path_to_flag_files w = [] \<longrightarrow> save obj w = None)
   \<and> (f_filename obj \<noteq> [] \<and> writable w (f_filename obj)
        \<and> (has_parameter (get_conf_file w (f_filename obj)) ''count'' \<longrightarrow>
             stol (get_parameter (get_conf_file w (f_filename obj)) ''count'') = Inr n
             \<and> n + 1 < 2 ^ 63) \<longrightarrow>
       (\<exists>w'. save obj w = Some (Inr True, obj, w')
          \<and> get_conf_file w' (f_filename obj) ''date'' =
              Some (if has_parameter (get_conf_file w (f_filename obj)) ''date''
                    then get_parameter (get_conf_file w (f_filename obj)) ''date''
                    else to_string (sint (time_now w)))
          \<and> get_conf_file w' (f_filename obj) ''modified'' = Some (to_string (sint (time_now w)))
          \<and> get_conf_file w' (f_filename obj) ''count'' =
              Some (if has_parameter (get_conf_file w (f_filename obj)) ''count''
                    then to_string (n + 1) else ''1'')
          \<and> (files w (f_filename obj) = None \<longrightarrow>
               (\<exists>w''. save obj (w'\<lparr>time_now := later\<rparr>) = Some (Inr True, obj, w'')
                  \<and> get_conf_file w'' (f_filename obj) ''date''
                      = Some (to_string (sint (time_now w)))
                  \<and> get_conf_file w'' (f_filename obj) ''modified''
                      = Some (to_string (sint later))
                  \<and> get_conf_file w'' (f_filename obj) ''count'' = Some ''2''))))
   \<and> (f_filename obj \<noteq> [] \<and> \<not> writable w (f_filename obj)
        \<and> (has_parameter (get_conf_file w (f_filename obj)) ''count'' \<longrightarrow>
             stol (get_parameter (get_conf_file w (f_filename obj)) ''count'') = Inr n) \<longrightarrow>
       save obj w = Some (Inr False, obj, w))
   \<and> (f_filename obj \<noteq> [] \<and> has_parameter (get_conf_file w (f_filename obj)) ''count''
        \<and> stol (get_parameter (get_conf_file w (f_filename obj)) ''count'') = Inl e \<longrightarrow>
       save obj w = Some (Inl e, obj, w))"
proof (intro conjI impI)
  assume "f_filename obj = [] \<and> g_path_to_flag_files w = []"
  then show "save obj w = None"
    by (simp add: save_unresolved get_filename_unresolved)
next
  assume h: "f_filename obj \<noteq> [] \<and> writable w (f_filename obj)
        \<and> (has_parameter (get_conf_file w (f_filename obj)) ''count'' \<longrightarrow>
             stol (get_parameter (get_conf_file w (f_filename obj)) ''count'') = Inr n
             \<and> n + 1 < 2 ^ 63)"
  then have g: "get_filename obj w = Some (f_filename obj, obj, w)"
    by (simp add: get_filename_cached)
  from h have wr: "writable w (f_filename obj)"
    and c: "has_parameter (get_conf_file w (f_filename obj)) ''count'' \<longrightarrow>
             stol (get_parameter (get_conf_file w (f_filename obj)) ''count'') = Inr n
             \<and> n + 1 < 2 ^ 63"
    by simp_all
  show "\<exists>w'. save obj w = Some (Inr True, obj, w')
          \<and> get_conf_file w' (f_filename obj) ''date'' =
              Some (if has_parameter (get_conf_file w (f_filename obj)) ''date''
                    then get_parameter (get_conf_file w (f_filename obj)) ''date''
                    else to_string (sint (time_now w)))
          \<and> get_conf_file w' (f_filename obj) ''modified'' = Some (to_string (sint (time_now w)))
          \<and> get_conf_file w' (f_filename obj) ''count'' =
              Some (if has_parameter (get_conf_file w (f_filename obj)) ''count''
                    then to_string (n + 1) else ''1'')
          \<and> (files w (f_filename obj) = None \<longrightarrow>
               (\<exists>w''. save obj (w'\<lparr>time_now := later\<rparr>) = Some (Inr True, obj, w'')
                  \<and> get_conf_file w'' (f_filename obj) ''date''
                      = Some (to_string (sint (time_now w)))
                  \<and> get_conf_file w'' (f_filename obj) ''modified''
                      = Some (to_string (sint later))
                  \<and> get_conf_file w'' (f_filename obj) ''count'' = Some ''2''))"
    by (rule save_up_merges [OF g u wr c])
next
  assume h: "f_filename obj \<noteq> [] \<and> \<not> writable w (f_filename obj)
        \<and> (has_parameter (get_conf_file w (f_filename obj)) ''count'' \<longrightarrow>
             stol (get_parameter (get_conf_file w (f_filename obj)) ''count'') = Inr n)"
  then have g: "get_filename obj w = Some (f_filename obj, obj, w)"
    by (simp add: get_filename_cached)
  from h have c: "has_parameter (get_conf_file w (f_filename obj)) ''count'' \<longrightarrow>
             stol (get_parameter (get_conf_file w (f_filename obj)) ''count'') = Inr n"
    by simp
  from save_up [OF g u c] h show "save obj w = Some (Inr False, obj, w)" by simp
next
  assume h: "f_filename obj \<noteq> [] \<and> has_parameter (get_conf_file w (f_filename obj)) ''count''
        \<and> stol (get_parameter (get_conf_file w (f_filename obj)) ''count'') = Inl e"
  then have g: "get_filename obj w = Some (f_filename obj, obj, w)"
    by (simp add: get_filename_cached)
  from h show "save obj w = Some (Inl e, obj, w)"
    by (intro save_up_throws [OF g u]) simp_all
qed

theorem C6_save_up_witness:
  "save built_flag fresh_process = None
   \<and> (\<exists>w'. save loaded_clamav flagged_world = Some (Inr True, loaded_clamav, w')
         \<and> get_conf_file w' clamav_path ''date'' = Some ''1600000000''
         \<and> get_conf_file w' clamav_path ''modified'' = Some ''1700000000''
         \<and> get_conf_file w' clamav_path ''count'' = Some ''2'')
   \<and> (\<exists>w' w''. save loaded_clamav cleared_world = Some (Inr True, loaded_clamav, w')
         \<and> get_conf_file w' clamav_path ''date'' = Some ''1700000000''
         \<and> get_conf_file w' clamav_path ''count'' = Some ''1''
         \<and> save loaded_clamav (w'\<lparr>time_now := 1700000060\<rparr>) = Some (Inr True, loaded_clamav, w'')
         \<and> get_conf_file w'' clamav_path ''date'' = Some ''1700000000''
         \<and> get_conf_file w'' clamav_path ''modified'' = Some ''1700000060''
         \<and> get_conf_file w'' clamav_path ''count'' = Some ''2'')"
proof -
  have later: "to_string 1700000060 = ''1700000060''"
    by (simp add: text_eval)
  have one: "stol ''1'' = Inr 1" by (simp add: text_eval)
  have two: "to_string 2 = ''2''" by (simp add: text_eval)
  have a: "save built_flag fresh_process = None"
    using C6_save_up [where obj = built_flag and w = fresh_process]
    by (simp add: built_flag_facts fresh_process_unresolved)
  have b: "\<exists>w'. save loaded_clamav flagged_world = Some (Inr True, loaded_clamav, w')
         \<and> get_conf_file w' clamav_path ''date'' = Some ''1600000000''
         \<and> get_conf_file w' clamav_path ''modified'' = Some ''1700000000''
         \<and> get_conf_file w' clamav_path ''count'' = Some ''2''"
    using C6_save_up [where obj = loaded_clamav and w = flagged_world and n = 1]
    by (auto simp: loaded_clamav_facts flagged_world_facts flagged_world_record clamav_record_def
          has_parameter_def get_parameter_def one two clamav_path_nonempty)
  have c: "\<exists>w' w''. save loaded_clamav cleared_world = Some (Inr True, loaded_clamav, w')
         \<and> get_conf_file w' clamav_path ''date'' = Some ''1700000000''
         \<and> get_conf_file w' clamav_path ''count'' = Some ''1''
         \<and> save loaded_clamav (w'\<lparr>time_now := 1700000060\<rparr>) = Some (Inr True, loaded_clamav, w'')
         \<and> get_conf_file w'' clamav_path ''date'' = Some ''1700000000''
         \<and> get_conf_file w'' clamav_path ''modified'' = Some ''1700000060''
         \<and> get_conf_file w'' clamav_path ''count'' = Some ''2''"
    using C6_save_up [where obj = loaded_clamav and w = cleared_world and n = 0
        and later = 1700000060]
    by (auto simp: loaded_clamav_facts cleared_world_facts has_parameter_def later
          clamav_path_nonempty)
  from a b c show ?thesis by blast
qed

text \<open>
  C9 (clearing is idempotent).  A flag with state DOWN is saved.

  \<^item> A flag built from its triple has no file name yet.  In a process the static is empty,
    and \<open>save()\<close> does not return (the defect of C3): no record is deleted and nothing is
    returned.

  \<^item> A flag that has its file name, as a flag built from its file has: \<open>save()\<close> returns a
    boolean and throws nothing, and a second \<open>save()\<close> returns the same boolean and
    changes nothing more.  When the system does not refuse to remove the path, the
    boolean is true and no record is left at the path, whether or not one was there.
    When the system refuses with an error, the world is left as it was and the boolean is
    true only if the error is \<open>ENOENT\<close>.
\<close>

theorem C9_save_down:
  assumes d: "f_state obj = STATE_DOWN"
  shows "(f_filename obj = [] \<and> g_path_to_flag_files w = [] \<longrightarrow> save obj w = None)
   \<and> (f_filename obj \<noteq> [] \<longrightarrow>
        (\<exists>result w'. save obj w = Some (Inr result, obj, w')
           \<and> save obj w' = Some (Inr result, obj, w')
           \<and> (refused w (f_filename obj) = None \<longrightarrow>
                result \<and> files w' (f_filename obj) = None)
           \<and> (\<forall>e. refused w (f_filename obj) = Some e \<longrightarrow>
                result = (e = ENOENT) \<and> w' = w)))"
proof (intro conjI impI)
  assume "f_filename obj = [] \<and> g_path_to_flag_files w = []"
  then show "save obj w = None"
    by (simp add: save_unresolved get_filename_unresolved)
next
  assume fn: "f_filename obj \<noteq> []"
  have g: "get_filename obj w' = Some (f_filename obj, obj, w')" for w'
    by (simp add: get_filename_cached fn)
  obtain err w1 where un: "unlink (f_filename obj) w = (err, w1)"
    by (cases "unlink (f_filename obj) w")
  define result where "result = (err = None \<or> err = Some ENOENT)"
  have s1: "save obj w = Some (Inr result, obj, w1)"
    using save_down [OF g d, of w] un by (simp add: result_def)
  from unlink_again [OF un] obtain err' where un': "unlink (f_filename obj) w1 = (err', w1)"
    and same: "(err' = None \<or> err' = Some ENOENT) = (err = None \<or> err = Some ENOENT)"
    by blast
  have s2: "save obj w1 = Some (Inr result, obj, w1)"
    using save_down [OF g d, of w1] un' same by (simp add: result_def)
  have a: "refused w (f_filename obj) = None \<longrightarrow> result \<and> files w1 (f_filename obj) = None"
    using unlink_allowed [of w "f_filename obj"] un by (auto simp: result_def)
  have r: "\<forall>e. refused w (f_filename obj) = Some e \<longrightarrow> result = (e = ENOENT) \<and> w1 = w"
    using un by (auto simp: result_def dest: unlink_refused)
  from s1 s2 a r
  show "\<exists>result w'. save obj w = Some (Inr result, obj, w')
           \<and> save obj w' = Some (Inr result, obj, w')
           \<and> (refused w (f_filename obj) = None \<longrightarrow>
                result \<and> files w' (f_filename obj) = None)
           \<and> (\<forall>e. refused w (f_filename obj) = Some e \<longrightarrow>
                result = (e = ENOENT) \<and> w' = w)"
    by (intro exI [of _ result] exI [of _ w1] conjI s1 s2 a r)
qed

theorem C9_save_down_witness:
  "save (set_state STATE_DOWN built_flag) fresh_process = None
   \<and> files flagged_world clamav_path \<noteq> None
   \<and> (\<exists>w'. save cleared_flag flagged_world = Some (Inr True, cleared_flag, w')
         \<and> files w' clamav_path = None
         \<and> save cleared_flag w' = Some (Inr True, cleared_flag, w'))
   \<and> files blocked_world clamav_path = None
   \<and> save cleared_flag blocked_world = Some (Inr False, cleared_flag, blocked_world)"
proof -
  have f: "f_filename cleared_flag = clamav_path" "f_state cleared_flag = STATE_DOWN"
    by (simp_all add: cleared_flag_def set_state_def loaded_clamav_facts)
  have k: "refused blocked_world clamav_path = Some EISDIR"
    "files blocked_world clamav_path = None"
    by (simp_all add: blocked_world_def cleared_world_facts)
  have a: "save (set_state STATE_DOWN built_flag) fresh_process = None"
    using C9_save_down [where obj = "set_state STATE_DOWN built_flag" and w = fresh_process]
    by (simp add: set_state_def built_flag_facts fresh_process_unresolved)
  have b: "\<exists>w'. save cleared_flag flagged_world = Some (Inr True, cleared_flag, w')
         \<and> files w' clamav_path = None
         \<and> save cleared_flag w' = Some (Inr True, cleared_flag, w')"
    using C9_save_down [where obj = cleared_flag and w = flagged_world]
    by (auto simp: f flagged_world_facts clamav_path_nonempty)
  have c: "save cleared_flag blocked_world = Some (Inr False, cleared_flag, blocked_world)"
    using C9_save_down [where obj = cleared_flag and w = blocked_world]
    by (auto simp: f k clamav_path_nonempty)
  have n: "files flagged_world clamav_path \<noteq> None"
    by (simp add: flagged_world_facts)
  show ?thesis by (intro conjI a n b k(2) c)
qed

text \<open>
  C10 (frame of save).  Whatever \<open>save()\<close> returns or throws, the object it leaves is
  the object it was given, but for the file name that the first resolution caches: when
  the file name was cached already the object is unchanged, and in every case the count,
  the date and the modified time in memory are the ones from before the call.
\<close>

theorem C10_save_frame:
  assumes s: "save this w = Some (r, this', w')"
  shows "this' = this\<lparr>f_filename := f_filename this'\<rparr>
         \<and> (f_filename this \<noteq> [] \<longrightarrow> this' = this)
         \<and> f_count this' = f_count this
         \<and> f_date this' = f_date this
         \<and> f_modified this' = f_modified this"
proof -
  have fr: "this' = this\<lparr>f_filename := f_filename this'\<rparr>" by (rule save_frame [OF s])
  have same: "this' = this" if c: "f_filename this \<noteq> []"
  proof -
    from s obtain filename this1 w1 where g: "get_filename this w = Some (filename, this1, w1)"
      by (cases "get_filename this w") (auto simp: save_def)
    with get_filename_cached [OF c, of w] have "this1 = this" by simp
    moreover have "this' = this1"
      using s unfolding save_def g
      by (simp only: Option.bind.simps prod.case Let_def)
         (auto split: if_splits sum.splits prod.splits)
    ultimately show ?thesis by simp
  qed
  have "f_count this' = f_count this" using arg_cong [OF fr, of f_count] by simp
  moreover have "f_date this' = f_date this" using arg_cong [OF fr, of f_date] by simp
  moreover have "f_modified this' = f_modified this"
    using arg_cong [OF fr, of f_modified] by simp
  ultimately show ?thesis using fr same by blast
qed



theorem C10_save_frame_witness:
  "\<exists>r this' w'. save loaded_clamav flagged_world = Some (r, this', w')
     \<and> this' = loaded_clamav
     \<and> f_count this' = 1
     \<and> get_conf_file w' clamav_path ''count'' = Some ''2''"
proof -
  have g: "get_filename loaded_clamav flagged_world
             = Some (clamav_path, loaded_clamav, flagged_world)"
    using get_filename_cached [of loaded_clamav flagged_world]
    by (simp add: loaded_clamav_def clamav_path_def)
  have u: "f_state loaded_clamav = STATE_UP"
    by (simp add: loaded_clamav_def default_flag_def)
  have one: "stol ''1'' = Inr 1" by (simp add: text_eval)
  have two: "to_string (long_add 1 1) = ''2''" by (simp add: text_eval)
  have c: "has_parameter (get_conf_file flagged_world clamav_path) ''count'' \<longrightarrow>
           stol (get_parameter (get_conf_file flagged_world clamav_path) ''count'') = Inr 1"
    by (simp add: flagged_world_record clamav_record_def get_parameter_def one)
  have wr: "writable flagged_world clamav_path"
    by (simp add: flagged_world_def test_world_def)
  from save_up [OF g u c] wr obtain w' where
    s: "save loaded_clamav flagged_world = Some (Inr True, loaded_clamav, w')"
    and r: "get_conf_file w' clamav_path = written loaded_clamav flagged_world clamav_record"
    by (simp add: get_conf_file_written flagged_world_record)
  have k: "get_conf_file w' clamav_path ''count'' = Some ''2''"
    unfolding r
    by (simp add: written_fields clamav_record_def has_parameter_def get_parameter_def one two)
  have m: "f_count loaded_clamav = 1" by (simp add: loaded_clamav_def)
  from C10_save_frame [OF s] s k m show ?thesis by blast
qed

section \<open>The priority\<close>

lemma flag_load_Inr:
  assumes "flag_load filename w = Some (Inr loaded, w')"
  shows "filename \<noteq> [] \<and> w' = w
         \<and> load_fields (get_conf_file w filename) (default_flag\<lparr>f_filename := filename\<rparr>) = Inr loaded"
proof (cases "filename = []")
  case True
  with assms show ?thesis by (simp add: flag_load_empty)
next
  case False
  with assms show ?thesis by (auto simp: flag_load_nonempty)
qed

lemma clamav_flag_new:
  "flag_new ''core-plugins'' ''attachment'' ''clamav-missing'' = Inr clamav_flag"
  by (simp add: flag_new_def valid_name_def schar_def is_digit_def clamav_flag_def)

lemma loud_record_loads:
  "load_fields loud_record (default_flag\<lparr>f_filename := fn\<rparr>) = Inr (loud_flag\<lparr>f_filename := fn\<rparr>)"
  unfolding load_fields_steps
  by (simp add: opt_long_def opt_text_def loud_record_def clamav_record_def has_parameter_def
        get_parameter_def loud_flag_def loaded_clamav_def default_flag_def stol_def isspace_def
        is_digit_def digit_val_def Let_def)

text \<open>
  C5 (priority within 0 and 100), as amended.  \<open>set_priority\<close> clamps every \<open>int\<close> into
  the range: a negative argument gives 0, one above 100 gives 100, any other is kept.  A
  flag made by the constructor from a triple has a priority in the range after any sequence
  of setter calls, every setter keeps the range, and \<open>save()\<close> leaves the priority in
  memory as it is.  The constructor from a file does not clamp: the flag has the priority
  that the record holds, read with \<open>std::stol\<close>, or 5 when the record has none.
\<close>

theorem C5_priority_range:
  "priority_in_range (set_priority p obj)
   \<and> sint (f_priority (set_priority p obj))
       = (if sint p < 0 then 0 else if 100 < sint p then 100 else sint p)
   \<and> (flag_new un sec nm = Inr fresh \<longrightarrow>
        priority_in_range (fold call_setter calls fresh))
   \<and> (priority_in_range obj \<longrightarrow> priority_in_range (fold call_setter calls obj))
   \<and> (save obj w = Some (r, obj', w') \<longrightarrow> f_priority obj' = f_priority obj)
   \<and> (flag_load filename w = Some (Inr loaded, w') \<longrightarrow>
        (if has_parameter (get_conf_file w filename) ''priority''
         then \<exists>n. stol (get_parameter (get_conf_file w filename) ''priority'') = Inr n
                \<and> f_priority loaded = word_of_int n
         else f_priority loaded = 5))"
proof (intro conjI impI)
  show "priority_in_range (set_priority p obj)" by (rule set_priority_clamps)
  show "sint (f_priority (set_priority p obj))
         = (if sint p < 0 then 0 else if 100 < sint p then 100 else sint p)"
    by (rule set_priority_value)
next
  assume "flag_new un sec nm = Inr fresh"
  then have "priority_in_range fresh"
    by (simp add: priority_in_range_def flag_new_priority)
  then show "priority_in_range (fold call_setter calls fresh)"
    by (rule fold_setters_priority)
next
  assume "priority_in_range obj"
  then show "priority_in_range (fold call_setter calls obj)"
    by (rule fold_setters_priority)
next
  assume "save obj w = Some (r, obj', w')"
  from arg_cong [OF save_frame [OF this], of f_priority]
  show "f_priority obj' = f_priority obj" by simp
next
  assume "flag_load filename w = Some (Inr loaded, w')"
  from load_fields_priority [OF flag_load_Inr [OF this, THEN conjunct2, THEN conjunct2]]
  show "if has_parameter (get_conf_file w filename) ''priority''
        then \<exists>n. stol (get_parameter (get_conf_file w filename) ''priority'') = Inr n
               \<and> f_priority loaded = word_of_int n
        else f_priority loaded = 5"
    by (simp add: default_flag_def)
qed

theorem C5_priority_range_witness:
  "priority_in_range
     (fold call_setter [Set_priority 250, Add_tag ''mail'', Set_priority (- 5)] clamav_flag)
   \<and> sint (f_priority (set_priority (- 5) clamav_flag)) = 0
   \<and> sint (f_priority (set_priority 250 clamav_flag)) = 100
   \<and> sint (f_priority (set_priority 42 clamav_flag)) = 42
   \<and> f_priority loaded_clamav = 5"
proof -
  note t = C5_priority_range [where obj = clamav_flag and un = "''core-plugins''"
      and sec = "''attachment''" and nm = "''clamav-missing''" and fresh = clamav_flag
      and calls = "[Set_priority 250, Add_tag ''mail'', Set_priority (- 5)]"
      and w = flagged_world and filename = clamav_path and loaded = loaded_clamav
      and w' = flagged_world]
  have a: "priority_in_range
     (fold call_setter [Set_priority 250, Add_tag ''mail'', Set_priority (- 5)] clamav_flag)"
    using t [where p = 0] clamav_flag_new by blast
  have b: "sint (f_priority (set_priority (- 5) clamav_flag)) = 0"
    using t [where p = "- 5"] by simp
  have c: "sint (f_priority (set_priority 250 clamav_flag)) = 100"
    using t [where p = 250] by simp
  have d: "sint (f_priority (set_priority 42 clamav_flag)) = 42"
    using t [where p = 42] by simp
  have e: "f_priority loaded_clamav = 5"
    using t [where p = 0] flagged_world_loads
    by (simp add: flagged_world_record clamav_record_def has_parameter_def)
  from a b c d e show ?thesis by simp
qed

text \<open>
  The claim as stated fails for the constructor from a file: a record with
  \<open>priority=250\<close> loads as a flag of priority 250.
\<close>

theorem C5_loaded_priority_counterexample:
  "flag_load clamav_path loud_world = Some (Inr loud_flag, loud_world)
   \<and> sint (f_priority loud_flag) = 250
   \<and> \<not> priority_in_range loud_flag"
proof -
  have "get_conf_file loud_world clamav_path = loud_record"
    by (simp add: loud_world_def test_world_def get_conf_file_def)
  then have "flag_load clamav_path loud_world = Some (Inr loud_flag, loud_world)"
    by (simp add: flag_load_nonempty [OF clamav_path_nonempty] loud_record_loads
          loud_flag_def loaded_clamav_def)
  moreover have "sint (f_priority loud_flag) = 250" by (simp add: loud_flag_def)
  ultimately show ?thesis by (simp add: priority_in_range_def)
qed

section \<open>Tags\<close>

text \<open>
  C4 (\<open>add_tag\<close> validates the tag with the name grammar and throws \<open>invalid_name\<close>
  otherwise).  The code inserts the tag as it is given: a tag the validator rejects
  (\<open>ab_c\<close>, the empty string) is inserted, and a tag the validator would fold to lower
  case is inserted unfolded.
\<close>

theorem C4_add_tag_unvalidated:
  "valid_name ''ab_c'' = Inl invalid_name
   \<and> f_tags (add_tag ''ab_c'' clamav_flag) = [''ab_c'']
   \<and> valid_name [] = Inl invalid_name
   \<and> f_tags (add_tag [] clamav_flag) = [[]]
   \<and> valid_name ''Mail'' = Inr ''mail''
   \<and> f_tags (add_tag ''Mail'' clamav_flag) = [''Mail'']"
  by (simp add: valid_name_def schar_def is_digit_def add_tag_def set_insert_def
        clamav_flag_def default_flag_def)

theorem C4_add_tag_unvalidated_witness:
  "f_tags (add_tag ''ab_c'' clamav_flag) \<noteq> f_tags clamav_flag"
  using C4_add_tag_unvalidated by (simp add: clamav_flag_def default_flag_def)


section \<open>What loading all the flags returns\<close>

text \<open>
  \<open>load_flags()\<close> asks for the flags directory before anything else.  In a process the
  static is empty, so the resolution does not return and \<open>load_flags()\<close> does not return
  either, whatever the directory holds: no vector is built and the loop over the files is
  not entered.
\<close>

lemma load_flags_unresolved: "g_path_to_flag_files w = [] \<Longrightarrow> load_flags w = None"
  by (simp add: load_flags_def get_path_unresolved)

lemma load_flags_returns:
  assumes "load_flags w = Some r"
  shows "g_path_to_flag_files w \<noteq> []"
  using assms load_flags_unresolved [of w] by auto

lemma flag_load_missing_field:
  assumes "\<not> has_parameter (get_conf_file w bad) ''unit''
           \<or> \<not> has_parameter (get_conf_file w bad) ''section''
           \<or> \<not> has_parameter (get_conf_file w bad) ''name''
           \<or> \<not> has_parameter (get_conf_file w bad) ''message''"
  shows "flag_load bad w = Some (Inl invalid_parameter, w)"
proof (cases "bad = []")
  case True
  then show ?thesis by (simp add: flag_load_empty)
next
  case False
  with assms show ?thesis by (auto simp: flag_load_nonempty load_fields_steps)
qed

lemma crowded_world_facts:
  "g_path_to_flag_files crowded_world = []"
  "glob_to_list crowded_world pattern = crowded_names"
  "length crowded_names = 101"
  by (simp_all add: crowded_world_def test_world_def crowded_names_def)

lemma crowded_world_loads:
  assumes "filename \<in> set crowded_names"
  shows "flag_load filename crowded_world
           = Some (Inr (loaded_clamav\<lparr>f_filename := filename\<rparr>), crowded_world)"
proof -
  from assms have n: "filename \<noteq> []"
    by (auto simp: crowded_names_def flags_dir_def)
  have "get_conf_file crowded_world filename = clamav_record"
    using assms by (simp add: crowded_world_def test_world_def get_conf_file_def)
  then show ?thesis by (simp add: flag_load_nonempty [OF n] clamav_record_loads)
qed

lemma spoiled_world_facts:
  "g_path_to_flag_files spoiled_world = []"
  "glob_to_list spoiled_world pattern = [broken_path, clamav_path]"
  "get_conf_file spoiled_world broken_path = broken_record"
  "get_conf_file spoiled_world clamav_path = clamav_record"
  "logged spoiled_world = []"
  by (simp_all add: spoiled_world_def test_world_def get_conf_file_def broken_path_def
        clamav_path_def)

text \<open>
  C1 (overflow guard).  The claim says what \<open>load_flags()\<close> returns for a directory of
  more records than the limit.  In a process the static is empty, and \<open>load_flags()\<close>
  does not return, whatever the directory holds (the defect of C3).  So it is for a
  directory of 101 valid records, each of which the constructor loads: no vector of 100
  entries comes back, and no flag of the overflow is made or saved.
\<close>

theorem C1_load_flags_never_returns:
  assumes "g_path_to_flag_files w = []"
  shows "load_flags w = None"
  using assms by (simp add: load_flags_def get_path_unresolved)

theorem C1_load_flags_never_returns_witness:
  "FLAGS_LIMIT = 100
   \<and> length (glob_to_list crowded_world (flags_dir @ ''/*.flag'')) = 101
   \<and> map (\<lambda>filename. flag_load filename crowded_world)
         (glob_to_list crowded_world (flags_dir @ ''/*.flag''))
       = map (\<lambda>filename. Some (Inr (loaded_clamav\<lparr>f_filename := filename\<rparr>), crowded_world))
           crowded_names
   \<and> load_flags crowded_world = None"
proof -
  have "load_flags crowded_world = None"
    by (rule C1_load_flags_never_returns) (simp add: crowded_world_facts)
  then show ?thesis
    by (simp add: crowded_world_facts FLAGS_LIMIT_def crowded_world_loads)
qed

text \<open>
  C2 (a record that fails to parse).  The constructor from a file throws
  \<open>invalid_parameter\<close> for a record that lacks one of \<open>unit\<close>, \<open>section\<close>, \<open>name\<close>,
  \<open>message\<close>, and logs nothing.  In a process the static is empty, and \<open>load_flags()\<close>
  does not return (the defect of C3): the record is not skipped, no diagnostic is logged,
  and the records that would load are not returned.
\<close>

theorem C2_bad_record_not_skipped:
  assumes "g_path_to_flag_files w = []"
    and "\<not> has_parameter (get_conf_file w bad) ''unit''
         \<or> \<not> has_parameter (get_conf_file w bad) ''section''
         \<or> \<not> has_parameter (get_conf_file w bad) ''name''
         \<or> \<not> has_parameter (get_conf_file w bad) ''message''"
  shows "flag_load bad w = Some (Inl invalid_parameter, w) \<and> load_flags w = None"
  using flag_load_missing_field [OF assms(2)] load_flags_unresolved [OF assms(1)] by simp

theorem C2_bad_record_not_skipped_witness:
  "glob_to_list spoiled_world (flags_dir @ ''/*.flag'') = [broken_path, clamav_path]
   \<and> flag_load broken_path spoiled_world = Some (Inl invalid_parameter, spoiled_world)
   \<and> flag_load clamav_path spoiled_world = Some (Inr loaded_clamav, spoiled_world)
   \<and> logged spoiled_world = []
   \<and> load_flags spoiled_world = None"
proof -
  have m: "\<not> has_parameter (get_conf_file spoiled_world broken_path) ''message''"
    by (simp add: spoiled_world_facts broken_record_def has_parameter_def)
  from C2_bad_record_not_skipped [of spoiled_world broken_path] m
  have "flag_load broken_path spoiled_world = Some (Inl invalid_parameter, spoiled_world)
        \<and> load_flags spoiled_world = None"
    by (simp add: spoiled_world_facts)
  then show ?thesis
    by (simp add: spoiled_world_facts flag_load_nonempty [OF clamav_path_nonempty]
          clamav_record_loads loaded_clamav_def)
qed

subsection \<open>The text of the loop\<close>

text \<open>
  What the loop of \<open>load_flags()\<close> computes from a path and a list of file names handed to
  it.  It tests the size of the vector before it reads each file: after \<open>FLAGS_LIMIT\<close>
  flags it appends the flag of the overflow, as one more entry, and stops; it calls no
  \<open>save()\<close>.  It reads each record with the constructor, outside any handler: what the
  constructor throws leaves the loop.
\<close>

lemma sentinel_made:
  "(case COMMUNICATORD_FLAG_UP ''communicatord'' ''flag'' ''too-many-flags''
            (''too many flags were raised, showing only the first 100,''
             @ '' others can be viewed on this system at '' @ [CHR 0x22] @ path @ [CHR 0x22])
            (macro_file w) ''load_flags'' (macro_line w) of
      Inl e \<Rightarrow> Some (Inl e, w)
    | Inr flag \<Rightarrow>
        (let flag = set_priority 97 flag;
             flag = add_tag ''flag'' flag;
             flag = add_tag ''too-many'' flag
         in Some (Inr (result @ [flag]), w)))
   = Some (Inr (result @ [too_many_flags path w]), w)"
  by (simp add: COMMUNICATORD_FLAG_UP_def flag_new_def valid_name_def schar_def is_digit_def
        set_state_def set_line_def set_function_def set_source_file_def set_message_def
        set_priority_def add_tag_def set_insert_def too_many_flags_def default_flag_def
        word_sless_alt)

lemma load_flags_loop_loaded:
  "list_all2 (\<lambda>filename loaded. flag_load filename w = Some (Inr loaded, w)) names fls \<Longrightarrow>
   length result + length names \<le> FLAGS_LIMIT \<Longrightarrow>
   load_flags_loop path (names @ rest) result w = load_flags_loop path rest (result @ fls) w"
proof (induction names fls arbitrary: result rule: list_all2_induct)
  case Nil
  then show ?case by simp
next
  case (Cons filename names loaded fls)
  from Cons.prems have "\<not> FLAGS_LIMIT \<le> length result"
    and "length (result @ [loaded]) + length names \<le> FLAGS_LIMIT" by simp_all
  with Cons.hyps(1) Cons.IH [of "result @ [loaded]"] show ?case by simp
qed

lemma load_flags_loop_overflow:
  "FLAGS_LIMIT \<le> length result \<Longrightarrow> rest \<noteq> [] \<Longrightarrow>
   load_flags_loop path rest result w = Some (Inr (result @ [too_many_flags path w]), w)"
  by (cases rest) (simp_all add: sentinel_made del: append.simps)

lemma load_flags_loop_throws:
  "\<not> FLAGS_LIMIT \<le> length result \<Longrightarrow> flag_load bad w = Some (Inl e, w') \<Longrightarrow>
   load_flags_loop path (bad # rest) result w = Some (Inl e, w')"
  by simp

lemma too_many_flags_fields:
  "f_unit (too_many_flags path w) = ''communicatord''"
  "f_section (too_many_flags path w) = ''flag''"
  "f_name (too_many_flags path w) = ''too-many-flags''"
  "sint (f_priority (too_many_flags path w)) = 97"
  "set (f_tags (too_many_flags path w)) = {''flag'', ''too-many''}"
  "f_state (too_many_flags path w) = STATE_UP"
  by (simp_all add: too_many_flags_def default_flag_def)

lemma load_flags_loop_limit:
  assumes "length names = FLAGS_LIMIT" and "rest \<noteq> []"
    and "list_all2 (\<lambda>filename loaded. flag_load filename w = Some (Inr loaded, w)) names fls"
  shows "load_flags_loop path (names @ rest) [] w
           = Some (Inr (fls @ [too_many_flags path w]), w)"
proof -
  have "length fls = FLAGS_LIMIT" using assms(1,3) by (auto dest: list_all2_lengthD)
  then show ?thesis
    using load_flags_loop_loaded [OF assms(3), of "[]" path rest] assms(1,2)
    by (simp add: load_flags_loop_overflow)
qed

lemma load_flags_loop_bad_record:
  assumes "length names < FLAGS_LIMIT"
    and "list_all2 (\<lambda>filename loaded. flag_load filename w = Some (Inr loaded, w)) names fls"
    and "flag_load bad w = Some (Inl e, w')"
  shows "load_flags_loop path (names @ bad # rest) [] w = Some (Inl e, w')"
proof -
  have "length fls = length names" using assms(2) by (auto dest: list_all2_lengthD)
  then have "\<not> FLAGS_LIMIT \<le> length ([] @ fls)" using assms(1) by simp
  from load_flags_loop_throws [OF this assms(3)]
  show ?thesis
    using load_flags_loop_loaded [OF assms(2), of "[]" path "bad # rest"] assms(1)
    by simp
qed


section \<open>Saving, then loading\<close>

lemma split_at_nonempty: "split_at delimiters s \<noteq> []"
  by (induction s) (auto split: list.splits)

lemma split_at_plain:
  "CHR '','' \<notin> set t \<Longrightarrow>
   split_at '','' (t @ rest) = (t @ hd (split_at '','' rest)) # tl (split_at '','' rest)"
  using split_at_nonempty [of "'',''" rest]
  by (induction t) (auto split: list.splits)

lemma split_at_join:
  "\<forall>t \<in> set tags. CHR '','' \<notin> set t \<Longrightarrow> tags \<noteq> [] \<Longrightarrow>
   split_at '','' (join_strings tags '','') = tags"
proof (induction tags "'',''" rule: join_strings.induct)
  case 1
  then show ?case by simp
next
  case (2 t)
  then show ?case using split_at_plain [of t "[]"] by simp
next
  case (3 t v va)
  then show ?case using split_at_plain [of t "'','' @ join_strings (v # va) '',''"] by simp
qed

lemma dropWhile_keep: "xs \<noteq> [] \<Longrightarrow> \<not> P (hd xs) \<Longrightarrow> dropWhile P xs = xs"
  by (cases xs) simp_all

lemma trim_plain:
  assumes "plain_tag t"
  shows "trim_token tag_separators t = t"
proof -
  have a: "dropWhile (\<lambda>c. c \<in> set tag_separators) t = t"
    using assms by (intro dropWhile_keep) (simp_all add: plain_tag_def)
  have b: "dropWhile (\<lambda>c. c \<in> set tag_separators) (rev t) = rev t"
    using assms by (intro dropWhile_keep) (simp_all add: plain_tag_def hd_rev)
  show ?thesis by (simp add: trim_token_def a b)
qed

lemma tokenize_join:
  assumes "\<forall>t \<in> set tags. plain_tag t"
  shows "tokenize_string (join_strings tags '','') '','' True tag_separators = tags"
proof (cases "tags = []")
  case True
  then show ?thesis by (simp add: tokenize_string_def trim_token_def)
next
  case False
  have "\<forall>t \<in> set tags. CHR '','' \<notin> set t" using assms by (simp add: plain_tag_def)
  from split_at_join [OF this False]
  have "tokenize_string (join_strings tags '','') '','' True tag_separators
          = filter (\<lambda>tok. tok \<noteq> []) (map (trim_token tag_separators) tags)"
    by (simp add: tokenize_string_def)
  also have "map (trim_token tag_separators) tags = tags"
    using assms by (simp add: trim_plain map_idI)
  also have "filter (\<lambda>tok. tok \<noteq> []) tags = tags"
    using assms by (auto simp: plain_tag_def filter_id_conv)
  finally show ?thesis .
qed

lemma set_set_insert: "set (set_insert x xs) = insert x (set xs)"
  by (simp add: set_insert_def insert_absorb set_insort_key)

lemma set_fold_set_insert: "set (fold set_insert xs ys) = set xs \<union> set ys"
  by (induction xs arbitrary: ys) (simp_all add: set_set_insert)

lemma written_has:
  "has_parameter (written this w old) ''unit''"
  "has_parameter (written this w old) ''section''"
  "has_parameter (written this w old) ''name''"
  "has_parameter (written this w old) ''message''"
  "has_parameter (written this w old) ''priority''"
  "has_parameter (written this w old) ''manual_down''"
  "has_parameter (written this w old) ''tags''"
  "has_parameter (written this w old) ''hostname''"
  "has_parameter (written this w old) ''version''"
  "has_parameter (written this w old) ''modified''"
  "has_parameter (written this w old) ''date''"
  "has_parameter (written this w old) ''count''"
  "has_parameter (written this w old) ''line''"
  "has_parameter (written this w old) ''source_file''"
  "has_parameter (written this w old) ''function''"
  by (simp_all add: has_parameter_def written_fields)

lemma written_get:
  "get_parameter (written this w old) ''unit'' = f_unit this"
  "get_parameter (written this w old) ''section'' = f_section this"
  "get_parameter (written this w old) ''name'' = f_name this"
  "get_parameter (written this w old) ''message'' = f_message this"
  "get_parameter (written this w old) ''priority'' = to_string (sint (f_priority this))"
  "get_parameter (written this w old) ''manual_down'' = (if f_manual_down this then ''yes'' else ''no'')"
  "get_parameter (written this w old) ''tags'' = join_strings (f_tags this) '',''"
  "get_parameter (written this w old) ''hostname'' = gethostname w"
  "get_parameter (written this w old) ''version'' = COMMUNICATORD_VERSION_STRING w"
  "get_parameter (written this w old) ''modified'' = to_string (sint (time_now w))"
  "get_parameter (written this w old) ''line'' = to_string (sint (f_line this))"
  "get_parameter (written this w old) ''source_file'' = f_source_file this"
  "get_parameter (written this w old) ''function'' = f_function this"
  by (simp_all add: get_parameter_def written_fields)

lemma load_written:
  assumes d: "stol (get_parameter (written this w old) ''date'') = Inr dn"
    and c: "stol (get_parameter (written this w old) ''count'') = Inr cn"
  shows "load_fields (written this w old) d0 =
           Inr (d0\<lparr>f_unit := f_unit this, f_section := f_section this, f_name := f_name this,
                   f_source_file := f_source_file this, f_function := f_function this,
                   f_line := f_line this, f_message := f_message this,
                   f_priority := f_priority this, f_manual_down := f_manual_down this,
                   f_date := word_of_int dn, f_modified := time_now w,
                   f_tags := fold set_insert
                               (tokenize_string (join_strings (f_tags this) '','') '','' True
                                  tag_separators) (f_tags d0),
                   f_hostname := gethostname w, f_count := word_of_int cn,
                   f_version := COMMUNICATORD_VERSION_STRING w\<rparr>)"
  unfolding load_fields_steps
  by (simp add: written_has opt_long_def opt_text_def written_get d c stol_to_string_int
        stol_to_string_long tag_separators_def)


lemma written_date_reads:
  assumes "has_parameter old ''date'' \<longrightarrow> stol (get_parameter old ''date'') = Inr m"
  shows "\<exists>dn. stol (get_parameter (written this w old) ''date'') = Inr dn"
  using assms by (simp add: get_parameter_def [of "written this w old"] written_fields
      stol_to_string_long)

lemma written_count_reads:
  assumes "has_parameter old ''count'' \<longrightarrow> stol (get_parameter old ''count'') = Inr n"
  shows "\<exists>cn. stol (get_parameter (written this w old) ''count'') = Inr cn"
proof (cases "has_parameter old ''count''")
  case True
  with assms have "get_parameter (written this w old) ''count'' = to_string (long_add n 1)"
    by (simp add: get_parameter_def [of "written this w old"] written_fields)
  then show ?thesis by (simp add: long_add_def stol_to_string_long)
next
  case False
  have "stol ''1'' = Inr 1" by (simp add: text_eval)
  with False show ?thesis
    by (simp add: get_parameter_def [of "written this w old"] written_fields)
qed

lemma save_then_load:
  assumes g: "get_filename this w = Some (filename, this1, w1)"
    and u: "f_state this = STATE_UP"
    and wr: "writable w filename"
    and c: "has_parameter (get_conf_file w filename) ''count'' \<longrightarrow>
            stol (get_parameter (get_conf_file w filename) ''count'') = Inr n"
    and d: "has_parameter (get_conf_file w filename) ''date'' \<longrightarrow>
            stol (get_parameter (get_conf_file w filename) ''date'') = Inr m"
    and p: "\<forall>t \<in> set (f_tags this). plain_tag t"
  shows "\<exists>w' again. save this w = Some (Inr True, this1, w')
           \<and> flag_load filename w' = Some (Inr again, w')
           \<and> f_unit again = f_unit this \<and> f_section again = f_section this
           \<and> f_name again = f_name this \<and> f_message again = f_message this
           \<and> f_priority again = f_priority this
           \<and> f_manual_down again = f_manual_down this
           \<and> set (f_tags again) = set (f_tags this)
           \<and> f_hostname again = gethostname w
           \<and> f_version again = COMMUNICATORD_VERSION_STRING w"
proof -
  define old where "old = get_conf_file w filename"
  define w' where "w' = w\<lparr>files :=
                        (case files w filename of
                           None \<Rightarrow> files w
                         | Some previous \<Rightarrow> (files w)(filename @ ''.bak'' \<mapsto> previous))
                        (filename \<mapsto> written this w old)\<rparr>"
  from get_filename_Some [OF g] have f: "filename \<noteq> []" by simp
  have s: "save this w = Some (Inr True, this1, w')"
    using save_up [OF g u c] wr by (simp add: w'_def old_def)
  have r: "get_conf_file w' filename = written this w old"
    by (simp add: w'_def get_conf_file_written)
  from written_date_reads [OF d [folded old_def]] obtain dn where
    dn: "stol (get_parameter (written this w old) ''date'') = Inr dn" ..
  from written_count_reads [OF c [folded old_def]] obtain cn where
    cn: "stol (get_parameter (written this w old) ''count'') = Inr cn" ..
  note l = load_written [OF dn cn, of "default_flag\<lparr>f_filename := filename\<rparr>"]
  have t: "set (fold set_insert
                 (tokenize_string (join_strings (f_tags this) '','') '','' True tag_separators)
                 (f_tags (default_flag\<lparr>f_filename := filename\<rparr>))) = set (f_tags this)"
    by (simp add: tokenize_join [OF p] set_fold_set_insert default_flag_def)
  show ?thesis
    using s t by (simp add: flag_load_nonempty [OF f] r l)
qed

text \<open>
  C8 (round trip).  The flag is loaded from its record, given the tag \<open>a,b\<close> with
  \<open>add_tag\<close>, and saved with state UP; the save succeeds.  The flag constructed from the
  saved file has the two tags \<open>a\<close> and \<open>b\<close>, not the tag \<open>a,b\<close>: the tags are not
  reproduced.  (For a flag whose tags are all plain, and a record on disk whose date and
  count read as numbers, the round trip holds: lemma \<open>save_then_load\<close>.)
\<close>

theorem C8_roundtrip_splits_tag:
  "\<exists>w' again. flag_load clamav_path flagged_world = Some (Inr loaded_clamav, flagged_world)
     \<and> comma_flag = add_tag ''a,b'' loaded_clamav
     \<and> save comma_flag flagged_world = Some (Inr True, comma_flag, w')
     \<and> flag_load clamav_path w' = Some (Inr again, w')
     \<and> f_tags comma_flag = [''a,b'']
     \<and> f_tags again = [''a'', ''b'']"
proof -
  have g: "get_filename comma_flag flagged_world
             = Some (clamav_path, comma_flag, flagged_world)"
    using get_filename_cached [of comma_flag flagged_world]
    by (simp add: comma_flag_def add_tag_def loaded_clamav_def clamav_path_def)
  have u: "f_state comma_flag = STATE_UP"
    by (simp add: comma_flag_def add_tag_def loaded_clamav_def default_flag_def)
  have one: "stol ''1'' = Inr 1" by (simp add: text_eval)
  have c: "has_parameter (get_conf_file flagged_world clamav_path) ''count'' \<longrightarrow>
           stol (get_parameter (get_conf_file flagged_world clamav_path) ''count'') = Inr 1"
    by (simp add: flagged_world_record clamav_record_def get_parameter_def one)
  have wr: "writable flagged_world clamav_path"
    by (simp add: flagged_world_def test_world_def)
  from save_up [OF g u c] wr obtain w' where
    s: "save comma_flag flagged_world = Some (Inr True, comma_flag, w')"
    and r: "get_conf_file w' clamav_path = written comma_flag flagged_world clamav_record"
    by (simp add: get_conf_file_written flagged_world_record)
  have dn: "stol (get_parameter (written comma_flag flagged_world clamav_record) ''date'')
              = Inr 1600000000"
    by (simp add: get_parameter_def written_fields clamav_record_def has_parameter_def text_eval)
  have cn: "stol (get_parameter (written comma_flag flagged_world clamav_record) ''count'')
              = Inr 2"
    by (simp add: get_parameter_def written_fields clamav_record_def has_parameter_def text_eval)
  have tg: "f_tags comma_flag = [''a,b'']"
    by (simp add: comma_flag_def add_tag_def set_insert_def loaded_clamav_def default_flag_def)
  have tk: "fold set_insert
              (tokenize_string (join_strings (f_tags comma_flag) '','') '','' True tag_separators)
              [] = [''a'', ''b'']"
    by (simp add: tg tokenize_string_def trim_token_def tag_separators_def set_insert_def)
  note l = load_written [OF dn cn, of "default_flag\<lparr>f_filename := clamav_path\<rparr>"]
  have z: "f_tags (default_flag\<lparr>f_filename := clamav_path\<rparr>) = []"
    by (simp add: default_flag_def)
  have "\<exists>again. flag_load clamav_path w' = Some (Inr again, w') \<and> f_tags again = [''a'', ''b'']"
    by (simp add: flag_load_nonempty [OF clamav_path_nonempty] r l z tk)
  with s tg flagged_world_loads show ?thesis by (auto simp: comma_flag_def)
qed

theorem C8_roundtrip_splits_tag_witness:
  "\<exists>w' again. save comma_flag flagged_world = Some (Inr True, comma_flag, w')
     \<and> flag_load clamav_path w' = Some (Inr again, w')
     \<and> f_tags again \<noteq> f_tags comma_flag"
  using C8_roundtrip_splits_tag by auto


end
